theory Spec2Isabelle
  imports Main
begin

section \<open>Background task manager (libs/task_manager/src/task_manager.py)\<close>

text \<open>
  The task manager runs on a single asyncio event loop.  Between two suspension points a
  coroutine runs without interruption, so the model has one atomic step per such segment
  and an interleaving is a list of these steps.  The lock \<open>_lock\<close> is held over
  statements without \<open>await\<close> only, so it is free whenever a segment asks for it and is
  not a field.

  Objects are shared: the registry \<open>self.tasks\<close> and the coroutine
  \<open>_execute_task(task)\<close> hold the same task object, and the coroutine keeps its object
  after the registry has dropped it.  The model therefore keeps explicit stores: \<open>heap\<close>
  for the \<open>BackgroundTask\<close> objects and \<open>resources\<close> for the \<open>TaskResource\<close> objects they
  point to, both addressed by task id; the registry is the list of its keys.

  \<open>uuid.uuid4()\<close> is modelled by a counter of fresh identifiers, \<open>datetime.now()\<close> by a
  clock in seconds, an exception by its message, a float by mantissa and exponent.  A
  cleanup handler is its name and whether \<open>asyncio.iscoroutinefunction\<close> holds of it;
  every call of a handler is logged in \<open>cleanup_log\<close>.  The unit of work \<open>coro\<close> is not a
  field: how it ends arrives with the step that ends it.
\<close>

datatype TaskStatus = PENDING | RUNNING | COMPLETED | FAILED | CANCELLED | TIMEOUT

datatype pyfloat = PyFloat int int

datatype handler = SyncHandler string | AsyncHandler string

fun handler_name :: "handler \<Rightarrow> string" where
  "handler_name (SyncHandler n) = n"
| "handler_name (AsyncHandler n) = n"

record TaskResource =
  resource_task_id :: nat
  browser_contexts :: "string list"
  memory_usage_mb :: pyfloat
  cpu_usage_percent :: pyfloat
  resource_created_at :: nat
  last_activity :: nat

record BackgroundTask =
  task_id :: nat
  name :: string
  status :: TaskStatus
  result :: "string option"
  error :: "string option"
  created_at :: nat
  started_at :: "nat option"
  completed_at :: "nat option"
  resource :: nat
  cleanup_handlers :: "handler list"

text \<open>\<open>_monitor_task\<close>: not set, a task that has not ended, or a task that has ended.\<close>

datatype monitor = NoMonitor | MonitorRunning | MonitorDone

record TaskManager =
  tasks :: "nat list"
  max_concurrent_tasks :: int
  running_tasks :: int
  monitor_interval :: pyfloat
  shutdown_requested :: bool
  monitor_task :: monitor

text \<open>\<open>TaskManager.__init__\<close>.\<close>

definition TaskManager_init :: "int \<Rightarrow> TaskManager" where
  "TaskManager_init max_concurrent =
     \<lparr>tasks = [], max_concurrent_tasks = max_concurrent, running_tasks = 0,
      monitor_interval = PyFloat 5 0, shutdown_requested = False, monitor_task = NoMonitor\<rparr>"

subsection \<open>The module-level factory\<close>





subsection \<open>Event-loop state\<close>

text \<open>
  Where the coroutine \<open>_execute_task\<close> of a task stands: scheduled by
  \<open>asyncio.create_task\<close>; awaiting the unit of work; suspended in \<open>_cleanup_task\<close> at the
  \<open>await\<close> of an asynchronous handler, with the handlers still to be called; ended; or
  left by an exception that \<open>_cleanup_task\<close> does not catch.
\<close>

datatype coro_state =
  NotCreated | Scheduled | Awaiting | Cleaning "handler list" | Finished | Aborted

text \<open>
  How the unit of work ends: it returns; \<open>asyncio.TimeoutError\<close> is raised (with the
  timeout as it is printed in the error); another \<open>Exception\<close> is raised; or a
  \<open>BaseException\<close> that is not an \<open>Exception\<close> is raised (\<open>asyncio.CancelledError\<close>,
  \<open>KeyboardInterrupt\<close>), which no \<open>except\<close> clause of \<open>_execute_task\<close> matches.

  How a call that is awaited or made ends: it returns, raises an \<open>Exception\<close>, raises
  \<open>asyncio.CancelledError\<close>, or raises another \<open>BaseException\<close>.
\<close>

datatype outcome = Returned string | TimeoutError string | Raised string | BaseRaised string

datatype call_end = CallReturns | CallRaises string | CallCancelled | CallAborts string

datatype cleanup_state = CleanupDone | CleanupSuspended "handler list" | CleanupAborted

text \<open>
  Where a call of \<open>shutdown\<close> stands: at \<open>await self._monitor_task\<close>; in the cleanup loop,
  suspended in an asynchronous handler of a task, with the handlers still to be called for
  it and the tasks of \<open>list(self.tasks.values())\<close> still to be visited; returned; or left
  by an exception.
\<close>

datatype shutdown_pc =
  AwaitingMonitor | CleaningTask nat "handler list" "nat list" | ShutdownDone | ShutdownAborted

text \<open>
  What \<open>update_resource_usage\<close> reads from psutil: both values, the memory only (the
  second read raises), or nothing (the first read raises).
\<close>

datatype sample = Sampled pyfloat pyfloat | MemoryOnly pyfloat | SampleFailed

record world =
  mgr :: TaskManager
  heap :: "nat \<Rightarrow> BackgroundTask option"
  resources :: "nat \<Rightarrow> TaskResource option"
  coros :: "nat \<Rightarrow> coro_state"
  shutdowns :: "shutdown_pc list"
  cleanup_log :: "(nat \<times> string) list"
  clock :: nat
  next_id :: nat

definition world_init :: "int \<Rightarrow> world" where
  "world_init max_concurrent =
     \<lparr>mgr = TaskManager_init max_concurrent, heap = (\<lambda>_. None), resources = (\<lambda>_. None),
      coros = (\<lambda>_. NotCreated), shutdowns = [], cleanup_log = [], clock = 0, next_id = 0\<rparr>"

text \<open>\<open>self.tasks.get(task_id)\<close>: the object registered under the key, if any.\<close>

definition tasks_get :: "world \<Rightarrow> nat \<Rightarrow> BackgroundTask option" where
  "tasks_get w tid = (if tid \<in> set (tasks (mgr w)) then heap w tid else None)"

text \<open>
  Mutation of the object at an address; \<open>touch_resource\<close> is
  \<open>task.resource.last_activity = datetime.now()\<close>.
\<close>

definition update_task :: "nat \<Rightarrow> (BackgroundTask \<Rightarrow> BackgroundTask) \<Rightarrow> world \<Rightarrow> world" where
  "update_task tid f w =
     (case heap w tid of
        None \<Rightarrow> w
      | Some t \<Rightarrow> w\<lparr>heap := (heap w)(tid \<mapsto> f t)\<rparr>)"

definition update_resource :: "nat \<Rightarrow> (TaskResource \<Rightarrow> TaskResource) \<Rightarrow> world \<Rightarrow> world" where
  "update_resource a f w =
     (case resources w a of
        None \<Rightarrow> w
      | Some r \<Rightarrow> w\<lparr>resources := (resources w)(a \<mapsto> f r)\<rparr>)"

definition touch_resource :: "nat \<Rightarrow> world \<Rightarrow> world" where
  "touch_resource tid w =
     (case heap w tid of
        None \<Rightarrow> w
      | Some t \<Rightarrow> update_resource (resource t) (\<lambda>r. r\<lparr>last_activity := clock w\<rparr>) w)"

text \<open>
  \<open>create_task\<close>: builds the record and its resource, registers the record and schedules
  \<open>_execute_task\<close> with \<open>asyncio.create_task\<close>; it has no other exit than returning the
  id.  The handlers given are copied into the record (\<open>None\<close> and the empty list both
  leave it empty).
\<close>

definition create_task :: "world \<Rightarrow> string \<Rightarrow> handler list \<Rightarrow> world \<times> nat" where
  "create_task w nm handlers =
     (let tid = next_id w;
          res = \<lparr>resource_task_id = tid, browser_contexts = [],
                 memory_usage_mb = PyFloat 0 0, cpu_usage_percent = PyFloat 0 0,
                 resource_created_at = clock w, last_activity = clock w\<rparr>;
          task = \<lparr>task_id = tid, name = nm, status = PENDING, result = None, error = None,
                  created_at = clock w, started_at = None, completed_at = None,
                  resource = tid, cleanup_handlers = handlers\<rparr>
      in (w\<lparr>mgr := (mgr w)\<lparr>tasks := tasks (mgr w) @ [tid]\<rparr>,
            heap := (heap w)(tid \<mapsto> task),
            resources := (resources w)(tid \<mapsto> res),
            coros := (coros w)(tid := Scheduled),
            next_id := Suc tid\<rparr>, tid))"

text \<open>
  \<open>_execute_task\<close>, first segment: the admission check under the lock, up to the
  \<open>await\<close> of the unit of work.  At the ceiling the record is failed and the coroutine
  returns from inside the \<open>async with\<close>, before the \<open>try\<close>.
\<close>

definition execute_start :: "world \<Rightarrow> nat \<Rightarrow> world" where
  "execute_start w tid =
     (if coros w tid \<noteq> Scheduled then w
      else if running_tasks (mgr w) \<ge> max_concurrent_tasks (mgr w) then
        (update_task tid
           (\<lambda>t. t\<lparr>status := FAILED, error := Some ''Max concurrent tasks reached''\<rparr>) w)
          \<lparr>coros := (coros w)(tid := Finished)\<rparr>
      else
        (touch_resource tid
          (update_task tid
             (\<lambda>t. t\<lparr>status := RUNNING, started_at := Some (clock w)\<rparr>) w))
          \<lparr>mgr := (mgr w)\<lparr>running_tasks := running_tasks (mgr w) + 1\<rparr>,
            coros := (coros w)(tid := Awaiting)\<rparr>)"

text \<open>
  The loop of \<open>_cleanup_task\<close> from a given handler on.  A synchronous handler is called
  and ends within the segment; how its call ends is read from the list \<open>es\<close> (a call
  that is not listed returns).  An \<open>Exception\<close> is caught and logged, and the loop goes on;
  any other exception leaves the loop.  At an asynchronous handler the call is made and
  the coroutine suspends (a handler that ends without suspending is this step followed
  at once by the step that resumes).  The result is the handlers called, the ends not
  used, and where the loop stands.  Handlers and units of work are taken not to touch the
  manager or its records.
\<close>

definition next_end :: "call_end list \<Rightarrow> call_end" where
  "next_end es = (case es of [] \<Rightarrow> CallReturns | e # _ \<Rightarrow> e)"

definition aborts :: "call_end \<Rightarrow> bool" where
  "aborts e = (case e of CallCancelled \<Rightarrow> True | CallAborts _ \<Rightarrow> True | _ \<Rightarrow> False)"

fun run_handlers ::
  "handler list \<Rightarrow> call_end list \<Rightarrow> handler list \<times> call_end list \<times> cleanup_state" where
  "run_handlers [] es = ([], es, CleanupDone)"
| "run_handlers (AsyncHandler n # hs) es = ([AsyncHandler n], es, CleanupSuspended hs)"
| "run_handlers (SyncHandler n # hs) es =
     (if aborts (next_end es) then ([SyncHandler n], tl es, CleanupAborted)
      else (case run_handlers hs (tl es) of
              (called, es', s) \<Rightarrow> (SyncHandler n # called, es', s)))"

definition calls_of :: "nat \<Rightarrow> handler list \<Rightarrow> (nat \<times> string) list" where
  "calls_of tid hs = map (\<lambda>h. (tid, handler_name h)) hs"

definition cleanup_task ::
  "nat \<Rightarrow> handler list \<Rightarrow> call_end list \<Rightarrow> world \<Rightarrow> world \<times> call_end list \<times> cleanup_state" where
  "cleanup_task tid hs es w =
     (case run_handlers hs es of
        (called, es', s) \<Rightarrow> (w\<lparr>cleanup_log := cleanup_log w @ calls_of tid called\<rparr>, es', s))"

definition handlers_of :: "world \<Rightarrow> nat \<Rightarrow> handler list" where
  "handlers_of w tid = (case heap w tid of None \<Rightarrow> [] | Some t \<Rightarrow> cleanup_handlers t)"

definition coro_after :: "cleanup_state \<Rightarrow> coro_state" where
  "coro_after s =
     (case s of CleanupDone \<Rightarrow> Finished | CleanupSuspended hs \<Rightarrow> Cleaning hs
      | CleanupAborted \<Rightarrow> Aborted)"

text \<open>
  \<open>_execute_task\<close>, second segment: the unit of work has ended; the matching \<open>except\<close>
  clause, if there is one, sets the status; then the \<open>finally\<close> block decrements the
  counter, stamps the record and enters \<open>_cleanup_task\<close>.
\<close>

definition apply_outcome :: "outcome \<Rightarrow> BackgroundTask \<Rightarrow> BackgroundTask" where
  "apply_outcome oc t =
     (case oc of
        Returned r \<Rightarrow> t\<lparr>result := Some r, status := COMPLETED\<rparr>
      | TimeoutError d \<Rightarrow>
          t\<lparr>status := TIMEOUT, error := Some (''Task timeout after '' @ d @ ''s'')\<rparr>
      | Raised e \<Rightarrow> t\<lparr>status := FAILED, error := Some e\<rparr>
      | BaseRaised e \<Rightarrow> t)"

definition execute_finish :: "world \<Rightarrow> nat \<Rightarrow> outcome \<Rightarrow> call_end list \<Rightarrow> world" where
  "execute_finish w tid oc es =
     (if coros w tid \<noteq> Awaiting then w
      else
        (let w1 = update_task tid (apply_outcome oc) w;
             w2 = w1\<lparr>mgr := (mgr w1)\<lparr>running_tasks := running_tasks (mgr w1) - 1\<rparr>\<rparr>;
             w3 = update_task tid (\<lambda>t. t\<lparr>completed_at := Some (clock w)\<rparr>) w2;
             w4 = touch_resource tid w3
         in case cleanup_task tid (handlers_of w4 tid) es w4 of
              (w5, es', s) \<Rightarrow> w5\<lparr>coros := (coros w5)(tid := coro_after s)\<rparr>))"

text \<open>
  \<open>_execute_task\<close>, a later segment: the asynchronous handler awaited has ended with
  \<open>e\<close>, and the loop of \<open>_cleanup_task\<close> goes on or is left.
\<close>

definition execute_resume :: "world \<Rightarrow> nat \<Rightarrow> call_end \<Rightarrow> call_end list \<Rightarrow> world" where
  "execute_resume w tid e es =
     (case coros w tid of
        Cleaning hs \<Rightarrow>
          if aborts e then w\<lparr>coros := (coros w)(tid := Aborted)\<rparr>
          else (case cleanup_task tid hs es w of
                  (w1, es', s) \<Rightarrow> w1\<lparr>coros := (coros w1)(tid := coro_after s)\<rparr>)
      | _ \<Rightarrow> w)"

text \<open>\<open>cancel_task\<close>.\<close>

definition cancel_task :: "world \<Rightarrow> nat \<Rightarrow> world \<times> bool" where
  "cancel_task w tid =
     (case tasks_get w tid of
        None \<Rightarrow> (w, False)
      | Some task \<Rightarrow>
          if status task \<noteq> RUNNING then (w, False)
          else (update_task tid
                  (\<lambda>t. t\<lparr>status := CANCELLED, error := Some ''Task cancelled by user''\<rparr>) w,
                True))"

text \<open>\<open>register_browser_context\<close> and \<open>update_resource_usage\<close>.\<close>

definition register_browser_context :: "world \<Rightarrow> nat \<Rightarrow> string \<Rightarrow> world" where
  "register_browser_context w tid context_id =
     (case tasks_get w tid of
        None \<Rightarrow> w
      | Some task \<Rightarrow>
          update_resource (resource task)
            (\<lambda>r. r\<lparr>browser_contexts := browser_contexts r @ [context_id]\<rparr>) w)"

definition update_resource_usage :: "world \<Rightarrow> nat \<Rightarrow> sample \<Rightarrow> world" where
  "update_resource_usage w tid smp =
     (case tasks_get w tid of
        None \<Rightarrow> w
      | Some task \<Rightarrow>
          (case smp of
             Sampled m c \<Rightarrow>
               update_resource (resource task)
                 (\<lambda>r. r\<lparr>memory_usage_mb := m, cpu_usage_percent := c,
                          last_activity := clock w\<rparr>) w
           | MemoryOnly m \<Rightarrow>
               update_resource (resource task) (\<lambda>r. r\<lparr>memory_usage_mb := m\<rparr>) w
           | SampleFailed \<Rightarrow> w))"

text \<open>
  \<open>start_monitoring\<close>, and \<open>_monitor_loop\<close> leaving its \<open>while\<close>, which it does once the
  flag is set (\<open>stop_monitoring\<close> sets the flag before it cancels the task).  The loop
  catches \<open>asyncio.CancelledError\<close> and every \<open>Exception\<close>, so the monitor task ends by
  returning.
\<close>

definition start_monitoring :: "world \<Rightarrow> world" where
  "start_monitoring w =
     (if monitor_task (mgr w) = MonitorRunning then w
      else w\<lparr>mgr := (mgr w)\<lparr>monitor_task := MonitorRunning\<rparr>\<rparr>)"

definition monitor_exit :: "world \<Rightarrow> world" where
  "monitor_exit w =
     (if monitor_task (mgr w) = MonitorRunning \<and> shutdown_requested (mgr w)
      then w\<lparr>mgr := (mgr w)\<lparr>monitor_task := MonitorDone\<rparr>\<rparr> else w)"

text \<open>
  \<open>_cleanup_stale_tasks\<close>, the end of a round of the monitor: finished records older than
  one hour leave the registry.
\<close>

definition is_stale :: "world \<Rightarrow> nat \<Rightarrow> bool" where
  "is_stale w tid =
     (case heap w tid of
        None \<Rightarrow> False
      | Some t \<Rightarrow>
          status t \<in> {COMPLETED, FAILED, CANCELLED} \<and>
          (case completed_at t of None \<Rightarrow> False
           | Some c \<Rightarrow> int c < int (clock w) - 3600))"

definition cleanup_stale_tasks :: "world \<Rightarrow> world" where
  "cleanup_stale_tasks w =
     w\<lparr>mgr := (mgr w)\<lparr>tasks := filter (\<lambda>tid. \<not> is_stale w tid) (tasks (mgr w))\<rparr>\<rparr>"

text \<open>
  \<open>shutdown\<close>.  \<open>cancel_running\<close> is the body of the first loop.  \<open>cleanup_loop\<close> is the
  second loop from a given task of the snapshot on, followed by \<open>self.tasks.clear()\<close>.
\<close>

definition cancel_running :: "nat \<Rightarrow> world \<Rightarrow> world" where
  "cancel_running tid w =
     (case heap w tid of
        None \<Rightarrow> w
      | Some t \<Rightarrow> if status t = RUNNING then fst (cancel_task w tid) else w)"

fun cleanup_loop :: "nat list \<Rightarrow> call_end list \<Rightarrow> world \<Rightarrow> world \<times> shutdown_pc" where
  "cleanup_loop [] es w = (w\<lparr>mgr := (mgr w)\<lparr>tasks := []\<rparr>\<rparr>, ShutdownDone)"
| "cleanup_loop (tid # rest) es w =
     (case cleanup_task tid (handlers_of w tid) es w of
        (w1, es1, s) \<Rightarrow>
          (case s of
             CleanupDone \<Rightarrow> cleanup_loop rest es1 w1
           | CleanupSuspended hs \<Rightarrow> (w1, CleaningTask tid hs rest)
           | CleanupAborted \<Rightarrow> (w1, ShutdownAborted)))"

text \<open>
  \<open>shutdown\<close>, first segment: the running records are cancelled and \<open>stop_monitoring\<close>
  sets the flag; a monitor task that has not ended is cancelled and awaited; otherwise
  (no monitor task, or one that has ended, whose \<open>await\<close> does not suspend) the cleanup
  loop starts at once.
\<close>

definition shutdown_start :: "world \<Rightarrow> call_end list \<Rightarrow> world" where
  "shutdown_start w es =
     (let w1 = fold cancel_running (tasks (mgr w)) w;
          w2 = w1\<lparr>mgr := (mgr w1)\<lparr>shutdown_requested := True\<rparr>\<rparr>
      in if monitor_task (mgr w2) = MonitorRunning
         then w2\<lparr>shutdowns := shutdowns w2 @ [AwaitingMonitor]\<rparr>
         else (case cleanup_loop (tasks (mgr w2)) es w2 of
                 (w3, pc) \<Rightarrow> w3\<lparr>shutdowns := shutdowns w3 @ [pc]\<rparr>))"

text \<open>
  \<open>shutdown\<close>, a later segment of the call number \<open>i\<close>, what it awaited having ended with
  \<open>e\<close>.  After the monitor task, \<open>stop_monitoring\<close> catches \<open>asyncio.CancelledError\<close> and
  nothing else; after an asynchronous handler, \<open>_cleanup_task\<close> catches every \<open>Exception\<close>.
\<close>

definition shutdown_resume :: "world \<Rightarrow> nat \<Rightarrow> call_end \<Rightarrow> call_end list \<Rightarrow> world" where
  "shutdown_resume w i e es =
     (if length (shutdowns w) \<le> i then w
      else
        (case shutdowns w ! i of
           AwaitingMonitor \<Rightarrow>
             if e = CallReturns \<or> e = CallCancelled then
               (case cleanup_loop (tasks (mgr w)) es w of
                  (w3, pc) \<Rightarrow> w3\<lparr>shutdowns := (shutdowns w3)[i := pc]\<rparr>)
             else w\<lparr>shutdowns := (shutdowns w)[i := ShutdownAborted]\<rparr>
         | CleaningTask tid hs rest \<Rightarrow>
             if aborts e then w\<lparr>shutdowns := (shutdowns w)[i := ShutdownAborted]\<rparr>
             else
               (case cleanup_task tid hs es w of
                  (w1, es1, s) \<Rightarrow>
                    (case s of
                       CleanupDone \<Rightarrow>
                         (case cleanup_loop rest es1 w1 of
                            (w3, pc) \<Rightarrow> w3\<lparr>shutdowns := (shutdowns w3)[i := pc]\<rparr>)
                     | CleanupSuspended hs' \<Rightarrow>
                         w1\<lparr>shutdowns := (shutdowns w1)[i := CleaningTask tid hs' rest]\<rparr>
                     | CleanupAborted \<Rightarrow>
                         w1\<lparr>shutdowns := (shutdowns w1)[i := ShutdownAborted]\<rparr>))
         | ShutdownDone \<Rightarrow> w
         | ShutdownAborted \<Rightarrow> w))"

text \<open>
  The atomic steps of the event loop, and an interleaving of them.  A step that is not
  enabled leaves the state as it is.  A round of the monitor is \<open>UpdateResource\<close> for the
  running records followed by \<open>Reap\<close>; the model lets both happen at any time.
\<close>

datatype event =
    Create string "handler list"
  | Start nat
  | Finish nat outcome "call_end list"
  | Resume nat call_end "call_end list"
  | Cancel nat
  | RegisterBrowserContext nat string
  | UpdateResource nat sample
  | StartMonitoring
  | MonitorExit
  | Reap
  | Shutdown "call_end list"
  | ShutdownResume nat call_end "call_end list"
  | Tick nat

fun step :: "world \<Rightarrow> event \<Rightarrow> world" where
  "step w (Create nm handlers) = fst (create_task w nm handlers)"
| "step w (Start tid) = execute_start w tid"
| "step w (Finish tid oc es) = execute_finish w tid oc es"
| "step w (Resume tid e es) = execute_resume w tid e es"
| "step w (Cancel tid) = fst (cancel_task w tid)"
| "step w (RegisterBrowserContext tid c) = register_browser_context w tid c"
| "step w (UpdateResource tid smp) = update_resource_usage w tid smp"
| "step w StartMonitoring = start_monitoring w"
| "step w MonitorExit = monitor_exit w"
| "step w Reap = cleanup_stale_tasks w"
| "step w (Shutdown es) = shutdown_start w es"
| "step w (ShutdownResume i e es) = shutdown_resume w i e es"
| "step w (Tick n) = w\<lparr>clock := clock w + n\<rparr>"

definition run :: "int \<Rightarrow> event list \<Rightarrow> world" where
  "run max_concurrent evs = foldl step (world_init max_concurrent) evs"

definition status_of :: "world \<Rightarrow> nat \<Rightarrow> TaskStatus option" where
  "status_of w tid = map_option status (heap w tid)"

subsection \<open>Observations and invariants of the event loop\<close>

text \<open>
  \<open>settled\<close>: the statuses that \<open>_execute_task\<close> itself writes.  \<open>running_count\<close>: the
  number of task objects whose status is \<open>RUNNING\<close>.  \<open>in_flight\<close>: the number of
  executions admitted whose \<open>finally\<close> block has not run.  \<open>cleanup_calls\<close>: the calls of
  handlers made for one task, in order.
\<close>

definition settled :: "TaskStatus \<Rightarrow> bool" where
  "settled s = (s = COMPLETED \<or> s = FAILED \<or> s = TIMEOUT)"

definition running_count :: "world \<Rightarrow> nat" where
  "running_count w = length (filter (\<lambda>tid. status_of w tid = Some RUNNING) [0..<next_id w])"

definition in_flight :: "world \<Rightarrow> nat" where
  "in_flight w = length (filter (\<lambda>tid. coros w tid = Awaiting) [0..<next_id w])"

definition cleanup_calls :: "world \<Rightarrow> nat \<Rightarrow> (nat \<times> string) list" where
  "cleanup_calls w tid = filter (\<lambda>c. fst c = tid) (cleanup_log w)"




text \<open>Identifiers not handed out yet are unused.\<close>

definition fresh_inv :: "world \<Rightarrow> bool" where
  "fresh_inv w =
     (\<forall>tid. next_id w \<le> tid \<longrightarrow> heap w tid = None \<and> coros w tid = NotCreated)"

text \<open>The status of a task object against the progress of its coroutine.\<close>

definition before_finally :: "coro_state \<Rightarrow> bool" where
  "before_finally c = (c = NotCreated \<or> c = Scheduled \<or> c = Awaiting)"

definition coro_ok :: "world \<Rightarrow> nat \<Rightarrow> bool" where
  "coro_ok w tid =
     ((coros w tid \<noteq> NotCreated \<longrightarrow> heap w tid \<noteq> None) \<and>
      (\<forall>t. heap w tid = Some t \<longrightarrow>
         (settled (status t) \<longrightarrow> \<not> before_finally (coros w tid)) \<and>
         (completed_at t \<noteq> None \<longrightarrow> \<not> before_finally (coros w tid))))"

definition coro_inv :: "world \<Rightarrow> bool" where
  "coro_inv w = (\<forall>tid. coro_ok w tid)"

text \<open>The counter is the number of coroutines between admission and \<open>finally\<close>.\<close>

definition count_inv :: "world \<Rightarrow> bool" where
  "count_inv w = (running_tasks (mgr w) = int (card {tid. coros w tid = Awaiting}))"

definition world_inv :: "world \<Rightarrow> bool" where
  "world_inv w = (fresh_inv w \<and> coro_inv w \<and> count_inv w)"



text \<open>What the first loop of \<open>shutdown\<close> can do to one task object.\<close>

definition cancelled_from :: "BackgroundTask \<Rightarrow> BackgroundTask \<Rightarrow> bool" where
  "cancelled_from t t' =
     (t' = t \<or> (status t = RUNNING \<and>
                t' = t\<lparr>status := CANCELLED, error := Some ''Task cancelled by user''\<rparr>))"


section \<open>Merging agent (apps/brain/src/agents/merging_agent.py)\<close>

text \<open>
  Result payloads are Python values.  A dict is an association list in insertion order
  with pairwise distinct keys; a payload's keys are strings.
\<close>

datatype pyval =
    PNone
  | PBool bool
  | PInt int
  | PStr string
  | PList "pyval list"
  | PDict "(string \<times> pyval) list"

datatype py_error = AttributeError | KeyError

text \<open>\<open>d[k] = v\<close> and \<open>d.update(other)\<close> on insertion-ordered dicts.\<close>

fun dict_set :: "('k \<times> 'v) list \<Rightarrow> 'k \<Rightarrow> 'v \<Rightarrow> ('k \<times> 'v) list" where
  "dict_set [] k v = [(k, v)]"
| "dict_set ((k', v') # d) k v =
     (if k' = k then (k, v) # d else (k', v') # dict_set d k v)"

fun dict_update :: "('k \<times> 'v) list \<Rightarrow> ('k \<times> 'v) list \<Rightarrow> ('k \<times> 'v) list" where
  "dict_update d [] = d"
| "dict_update d ((k, v) # other) = dict_update (dict_set d k v) other"

definition is_list :: "pyval \<Rightarrow> bool" where
  "is_list v = (case v of PList _ \<Rightarrow> True | _ \<Rightarrow> False)"

definition is_dict :: "pyval \<Rightarrow> bool" where
  "is_dict v = (case v of PDict _ \<Rightarrow> True | _ \<Rightarrow> False)"

text \<open>A dict value has distinct keys.\<close>

definition wf_val :: "pyval \<Rightarrow> bool" where
  "wf_val v = (case v of PDict d \<Rightarrow> distinct (map fst d) | _ \<Rightarrow> True)"

record conflict =
  conflict_id :: string
  timestamp :: nat
  conflict_type :: string
  agents :: "string list"
  details :: string
  resolution :: "string option"
  resolved_by :: "string option"

record agent_entry =
  results :: "(string \<times> pyval) list"
  collected_at :: nat
  entry_status :: string

record MergedResults =
  session_id :: string
  merged_at :: nat
  agents_participated :: "string list"
  total_agents :: nat
  merged_data :: "string \<Rightarrow> pyval option"
  conflicts_resolved :: nat
  total_conflicts :: nat

record MergingAgent =
  agent_session_id :: string
  agent_results :: "(string \<times> agent_entry) list"
  conflicts :: "conflict list"
  merged_results :: "MergedResults option"
  logged_errors :: "string list"

definition MergingAgent_init :: "string \<Rightarrow> MergingAgent" where
  "MergingAgent_init sid =
     \<lparr>agent_session_id = sid, agent_results = [], conflicts = [], merged_results = None,
      logged_errors = []\<rparr>"

definition collect_agent_results ::
  "MergingAgent \<Rightarrow> nat \<Rightarrow> string \<Rightarrow> (string \<times> pyval) list \<Rightarrow> MergingAgent" where
  "collect_agent_results ag now agent_name res =
     ag\<lparr>agent_results :=
          dict_set (agent_results ag) agent_name
            \<lparr>results = res, collected_at = now, entry_status = ''collected''\<rparr>\<rparr>"

text \<open>
  \<open>resolve_conflicts\<close>: the only place where a conflict record is created.  The generated
  conflict id is a parameter.
\<close>

definition resolve_conflicts ::
  "MergingAgent \<Rightarrow> nat \<Rightarrow> string \<Rightarrow> string \<Rightarrow> string \<Rightarrow> string \<Rightarrow> string \<Rightarrow> MergingAgent" where
  "resolve_conflicts ag now cid ctype agent1 agent2 det =
     ag\<lparr>conflicts := conflicts ag @
            [\<lparr>conflict_id = cid, timestamp = now, conflict_type = ctype,
              agents = [agent1, agent2], details = det, resolution = None,
              resolved_by = None\<rparr>],
        logged_errors := logged_errors ag @ [''Agent conflict: '' @ ctype]\<rparr>"

text \<open>
  The body of the inner loop of \<open>merge_results\<close> for one \<open>key, value\<close> pair.  A key not
  yet merged starts as the empty list.  \<open>extend\<close> exists on lists only: on any other
  current value the call raises \<open>AttributeError\<close>.
\<close>

definition merge_key ::
  "(string \<Rightarrow> pyval option) \<Rightarrow> string \<Rightarrow> pyval \<Rightarrow> py_error + (string \<Rightarrow> pyval option)" where
  "merge_key md key val =
     (let md1 = (case md key of None \<Rightarrow> md(key \<mapsto> PList []) | Some _ \<Rightarrow> md)
      in case val of
           PList vs \<Rightarrow>
             (case md1 key of
                Some (PList cur) \<Rightarrow> Inr (md1(key \<mapsto> PList (cur @ vs)))
              | _ \<Rightarrow> Inl AttributeError)
         | PDict d \<Rightarrow>
             (let cur = (case md1 key of Some (PDict c) \<Rightarrow> c | _ \<Rightarrow> [])
              in Inr (md1(key \<mapsto> PDict (dict_update cur d))))
         | _ \<Rightarrow> Inr (md1(key \<mapsto> val)))"

fun merge_payload ::
  "(string \<Rightarrow> pyval option) \<Rightarrow> (string \<times> pyval) list \<Rightarrow> py_error + (string \<Rightarrow> pyval option)" where
  "merge_payload md [] = Inr md"
| "merge_payload md ((key, val) # rest) =
     (case merge_key md key val of
        Inl e \<Rightarrow> Inl e
      | Inr md' \<Rightarrow> merge_payload md' rest)"

fun merge_agents ::
  "(string \<Rightarrow> pyval option) \<Rightarrow> (string \<times> agent_entry) list \<Rightarrow> py_error + (string \<Rightarrow> pyval option)" where
  "merge_agents md [] = Inr md"
| "merge_agents md ((agent_name, agent_data) # rest) =
     (case merge_payload md (results agent_data) of
        Inl e \<Rightarrow> Inl e
      | Inr md' \<Rightarrow> merge_agents md' rest)"

text \<open>
  \<open>merge_results\<close>: the header is built first, then the data are merged agent by agent in
  the order of \<open>agent_results\<close>.  The result is the agent with \<open>merged_results\<close> set,
  together with the value returned; an exception leaves the method through \<open>Inl\<close>.
\<close>

definition merge_results :: "MergingAgent \<Rightarrow> nat \<Rightarrow> py_error + (MergingAgent \<times> MergedResults)" where
  "merge_results ag now =
     (let header =
            \<lparr>session_id = agent_session_id ag, merged_at = now,
             agents_participated = map fst (agent_results ag),
             total_agents = length (agent_results ag),
             merged_data = (\<lambda>_. None),
             conflicts_resolved =
               length (filter (\<lambda>c. resolution c \<noteq> None \<and> resolution c \<noteq> Some [])
                         (conflicts ag)),
             total_conflicts = length (conflicts ag)\<rparr>
      in case merge_agents (merged_data header) (agent_results ag) of
           Inl e \<Rightarrow> Inl e
         | Inr md \<Rightarrow>
             (let mr = header\<lparr>merged_data := md\<rparr>
              in Inr (ag\<lparr>merged_results := Some mr\<rparr>, mr)))"

text \<open>What a caller sees of a merge: a merged value, and the conflicts on record.\<close>

definition merged_value :: "py_error + (MergingAgent \<times> MergedResults) \<Rightarrow> string \<Rightarrow> pyval option" where
  "merged_value r key = (case r of Inl e \<Rightarrow> None | Inr (ag, mr) \<Rightarrow> merged_data mr key)"

definition recorded_conflicts ::
  "py_error + (MergingAgent \<times> MergedResults) \<Rightarrow> (conflict list \<times> nat) option" where
  "recorded_conflicts r =
     (case r of Inl e \<Rightarrow> None | Inr (ag, mr) \<Rightarrow> Some (conflicts ag, total_conflicts mr))"

section \<open>Dependency scheduler (apps/brain/src/agents/enhanced_orchestrator.py)\<close>

text \<open>
  A task is a dict; the keys read by the scheduler are fields of \<open>TaskDict\<close>.  A
  missing \<open>"task"\<close>, \<open>"priority"\<close> or \<open>"dependencies"\<close> is the default of the
  \<open>get\<close> that reads it (\<open>""\<close>, \<open>0\<close>, \<open>[]\<close>); \<open>"task_id"\<close> and \<open>"agent"\<close> are read
  with different defaults in different places and are optional fields.
\<close>

record TaskDict =
  td_task_id :: "string option"
  td_agent :: "string option"
  td_task :: string
  td_priority :: int
  td_dependencies :: "string list"

text \<open>\<open>task.get("task_id", "")\<close>, the key under which the scheduler files a task.\<close>

definition task_key :: "TaskDict \<Rightarrow> string" where
  "task_key t = (case td_task_id t of None \<Rightarrow> [] | Some i \<Rightarrow> i)"

record ResultDict =
  rd_agent :: "string option"
  rd_task :: "string option"
  rd_success :: bool
  rd_result :: "string option"
  rd_error :: "string option"
  rd_task_id :: "string option"

record Context =
  completed_tests :: "ResultDict list"
  failed_tests :: "(string \<times> string) list"

text \<open>What \<open>asyncio.gather(..., return_exceptions=True)\<close> yields for one awaitable.\<close>

datatype gathered = GException string | GResult ResultDict

text \<open>
  \<open>_run_agent_task_async\<close>.  The agent's \<open>think\<close> and \<open>execute\<close> are a parameter giving
  the result text or the message of the exception raised; the exception is caught and
  turned into a result with \<open>success = False\<close>.
\<close>

definition run_agent_task_async ::
  "string set \<Rightarrow> (TaskDict \<Rightarrow> Context \<Rightarrow> string + string) \<Rightarrow> TaskDict \<Rightarrow> Context \<Rightarrow> ResultDict" where
  "run_agent_task_async known_agents agent_run task ctx =
     (let tid = (case td_task_id task of None \<Rightarrow> ''unknown'' | Some i \<Rightarrow> i);
          agent_name = td_agent task;
          task_desc = td_task task
      in if (case agent_name of None \<Rightarrow> True | Some a \<Rightarrow> a \<notin> known_agents) then
           \<lparr>rd_agent = agent_name, rd_task = None, rd_success = False, rd_result = None,
            rd_error = Some ''Agent not found'', rd_task_id = None\<rparr>
         else case agent_run task ctx of
                Inr r \<Rightarrow>
                  \<lparr>rd_agent = agent_name, rd_task = Some task_desc, rd_success = True,
                   rd_result = Some (take 200 r), rd_error = None, rd_task_id = Some tid\<rparr>
              | Inl e \<Rightarrow>
                  \<lparr>rd_agent = agent_name, rd_task = Some task_desc, rd_success = False,
                   rd_result = None, rd_error = Some e, rd_task_id = Some tid\<rparr>)"

text \<open>
  The state of the loop of \<open>_execute_tasks_with_parallel\<close>.  \<open>pending\<close> is a Python set;
  it is kept as a list in the set's iteration order, which removing elements does not
  change.  \<open>dispatched\<close> records the batches handed to \<open>gather\<close>, in order, and
  \<open>sched_log\<close> the messages given to \<open>logger.error\<close>.
\<close>

record sched_state =
  sched_context :: Context
  executed :: "string set"
  pending :: "string list"
  dispatched :: "string list list"
  sched_log :: "string list"

text \<open>The dict comprehension and the first loop: \<open>task_map\<close> and \<open>dependencies\<close>.\<close>

definition build_task_map :: "TaskDict list \<Rightarrow> (string \<times> TaskDict) list" where
  "build_task_map ts = foldl (\<lambda>m t. dict_set m (task_key t) t) [] ts"

definition build_dependencies :: "TaskDict list \<Rightarrow> (string \<times> string set) list" where
  "build_dependencies ts =
     foldl (\<lambda>m t. dict_set m (task_key t) (set (td_dependencies t))) [] ts"

text \<open>
  The list comprehension over \<open>pending\<close>; \<open>dependencies[task_id]\<close> raises \<open>KeyError\<close> for
  an unknown id.
\<close>

fun ready_tasks ::
  "(string \<Rightarrow> string set option) \<Rightarrow> string set \<Rightarrow> string list \<Rightarrow> py_error + string list" where
  "ready_tasks deps ex [] = Inr []"
| "ready_tasks deps ex (t # ts) =
     (case deps t of
        None \<Rightarrow> Inl KeyError
      | Some ds \<Rightarrow>
          (case ready_tasks deps ex ts of
             Inl e \<Rightarrow> Inl e
           | Inr r \<Rightarrow> Inr (if ds \<subseteq> ex then t # r else r)))"

text \<open>The slice \<open>xs[:n]\<close>; a negative bound counts from the end.\<close>

definition py_take :: "int \<Rightarrow> 'a list \<Rightarrow> 'a list" where
  "py_take n xs = (if 0 \<le> n then take (nat n) xs else take (nat (int (length xs) + n)) xs)"

definition select_batch :: "int \<Rightarrow> string list \<Rightarrow> string list" where
  "select_batch max_parallel ready =
     (let batch_size = min (int (length ready)) max_parallel
      in py_take batch_size ready)"

text \<open>The awaitables of the batch: \<open>task_map[task_id]\<close> is looked up for every member.\<close>

fun gather ::
  "(string \<Rightarrow> TaskDict option) \<Rightarrow> (TaskDict \<Rightarrow> Context \<Rightarrow> gathered) \<Rightarrow> Context \<Rightarrow> string list
     \<Rightarrow> py_error + gathered list" where
  "gather tm dispatch ctx [] = Inr []"
| "gather tm dispatch ctx (t # ts) =
     (case tm t of
        None \<Rightarrow> Inl KeyError
      | Some task \<Rightarrow>
          (case gather tm dispatch ctx ts of
             Inl e \<Rightarrow> Inl e
           | Inr rs \<Rightarrow> Inr (dispatch task ctx # rs)))"

text \<open>The loop over \<open>zip(batch, results)\<close>.\<close>

fun process_results :: "(string \<times> gathered) list \<Rightarrow> sched_state \<Rightarrow> sched_state" where
  "process_results [] st = st"
| "process_results ((tid, res) # rest) st =
     (let st1 =
            (case res of
               GException e \<Rightarrow>
                 st\<lparr>sched_log := sched_log st @ [''Task '' @ tid @ '' failed: '' @ e],
                    sched_context := (sched_context st)
                      \<lparr>failed_tests := failed_tests (sched_context st) @ [(tid, e)]\<rparr>\<rparr>
             | GResult r \<Rightarrow>
                 st\<lparr>sched_context := (sched_context st)
                      \<lparr>completed_tests := completed_tests (sched_context st) @ [r]\<rparr>\<rparr>);
          st2 = st1\<lparr>executed := insert tid (executed st1),
                    pending := removeAll tid (pending st1)\<rparr>
      in process_results rest st2)"

text \<open>The message of the \<open>logger.error\<close> call before \<open>break\<close>.\<close>

definition deadlock_msg :: string where
  "deadlock_msg = ''No ready tasks found - possible circular dependency''"

text \<open>
  The \<open>while pending:\<close> loop.  With an empty batch a round changes nothing and the loop
  does not end: the value is \<open>None\<close>.
\<close>

partial_function (option) sched_loop ::
  "int \<Rightarrow> (string \<Rightarrow> TaskDict option) \<Rightarrow> (string \<Rightarrow> string set option)
     \<Rightarrow> (TaskDict \<Rightarrow> Context \<Rightarrow> gathered) \<Rightarrow> sched_state \<Rightarrow> (py_error + sched_state) option" where
  "sched_loop max_parallel tm deps dispatch st =
     (if pending st = [] then Some (Inr st)
      else case ready_tasks deps (executed st) (pending st) of
             Inl e \<Rightarrow> Some (Inl e)
           | Inr ready \<Rightarrow>
               if ready = [] then
                 Some (Inr (st\<lparr>sched_log := sched_log st @ [deadlock_msg]\<rparr>))
               else
                 (let batch = select_batch max_parallel ready
                  in case gather tm dispatch (sched_context st) batch of
                       Inl e \<Rightarrow> Some (Inl e)
                     | Inr rs \<Rightarrow>
                         sched_loop max_parallel tm deps dispatch
                           (process_results (zip batch rs)
                              (st\<lparr>dispatched := dispatched st @ [batch]\<rparr>))))"

text \<open>
  \<open>_execute_tasks_with_parallel\<close>.  \<open>set_order\<close> is the iteration order of the set built
  from the keys of \<open>task_map\<close>.
\<close>

definition execute_tasks_with_parallel ::
  "(string list \<Rightarrow> string list) \<Rightarrow> int \<Rightarrow> (TaskDict \<Rightarrow> Context \<Rightarrow> gathered) \<Rightarrow> TaskDict list
     \<Rightarrow> Context \<Rightarrow> (py_error + sched_state) option" where
  "execute_tasks_with_parallel set_order max_parallel dispatch ts ctx =
     (let task_map = build_task_map ts;
          dependencies = build_dependencies ts
      in sched_loop max_parallel (map_of task_map) (map_of dependencies) dispatch
           \<lparr>sched_context = ctx, executed = {}, pending = set_order (map fst task_map),
            dispatched = [], sched_log = []\<rparr>)"

text \<open>
  The sequential orchestrator (apps/brain/src/agents/orchestrator.py) visits
  \<open>sorted(tasks, key=lambda t: t.get("priority", 0))\<close>; the sort is stable.
\<close>

definition execute_tasks_order :: "TaskDict list \<Rightarrow> TaskDict list" where
  "execute_tasks_order ts = sort_key td_priority ts"

subsection \<open>Observations of a scheduler run\<close>

text \<open>
  What the loop over \<open>zip(batch, results)\<close> appends to \<open>failed_tests\<close>,
  \<open>completed_tests\<close> and the log.
\<close>

fun new_failed :: "(string \<times> gathered) list \<Rightarrow> (string \<times> string) list" where
  "new_failed [] = []"
| "new_failed ((t, GException e) # zs) = (t, e) # new_failed zs"
| "new_failed ((t, GResult r) # zs) = new_failed zs"

fun new_completed :: "(string \<times> gathered) list \<Rightarrow> ResultDict list" where
  "new_completed [] = []"
| "new_completed ((t, GException e) # zs) = new_completed zs"
| "new_completed ((t, GResult r) # zs) = r # new_completed zs"

fun new_log :: "(string \<times> gathered) list \<Rightarrow> string list" where
  "new_log [] = []"
| "new_log ((t, GException e) # zs) = (''Task '' @ t @ '' failed: '' @ e) # new_log zs"
| "new_log ((t, GResult r) # zs) = new_log zs"


text \<open>
  A round that cannot make progress: some task is ready and the batch cut from the ready
  list is empty (a ceiling of zero; a negative ceiling with few ready tasks).
\<close>

definition stalls :: "int \<Rightarrow> (string \<Rightarrow> string set option) \<Rightarrow> sched_state \<Rightarrow> bool" where
  "stalls mp deps st =
     (pending st \<noteq> [] \<and>
      (case ready_tasks deps (executed st) (pending st) of
         Inl e \<Rightarrow> False
       | Inr ready \<Rightarrow> ready \<noteq> [] \<and> select_batch mp ready = []))"

text \<open>
  The state the function ends in, when it returns normally.  The function itself returns
  nothing: a caller sees \<open>sched_context\<close> and the log.
\<close>

definition final_state :: "(py_error + sched_state) option \<Rightarrow> sched_state option" where
  "final_state r = (case r of Some (Inr st) \<Rightarrow> Some st | _ \<Rightarrow> None)"

text \<open>
  The awaitable the scheduler hands to \<open>gather\<close> is \<open>_run_agent_task_async\<close>, which
  catches the agent's exceptions and returns a result.
\<close>

definition dispatch_agents ::
  "string set \<Rightarrow> (TaskDict \<Rightarrow> Context \<Rightarrow> string + string) \<Rightarrow> TaskDict \<Rightarrow> Context \<Rightarrow> gathered" where
  "dispatch_agents known_agents agent_run task ctx =
     GResult (run_agent_task_async known_agents agent_run task ctx)"

subsection \<open>Example graphs\<close>

text \<open>
  Tasks of one agent; an agent that succeeds; an agent that raises on one task id, which
  \<open>_run_agent_task_async\<close> turns into a result with \<open>success = False\<close>; and a dispatch
  whose awaitable itself raises for one task id (an exception from outside the \<open>try\<close>
  of \<open>_run_agent_task_async\<close>), which \<open>gather\<close> hands back as an exception.
\<close>

definition mk_task :: "string \<Rightarrow> int \<Rightarrow> string list \<Rightarrow> TaskDict" where
  "mk_task tid prio deps =
     \<lparr>td_task_id = Some tid, td_agent = Some ''FormAgent'', td_task = ''fill'',
      td_priority = prio,
      td_dependencies = deps\<rparr>"

definition agent_ok :: "TaskDict \<Rightarrow> Context \<Rightarrow> string + string" where
  "agent_ok task ctx = Inr ''ok''"

definition agent_fails_on :: "string \<Rightarrow> TaskDict \<Rightarrow> Context \<Rightarrow> string + string" where
  "agent_fails_on bad task ctx = (if task_key task = bad then Inl ''boom'' else Inr ''ok'')"

definition raising_dispatch :: "string \<Rightarrow> TaskDict \<Rightarrow> Context \<Rightarrow> gathered" where
  "raising_dispatch bad task ctx =
     (if task_key task = bad then GException ''boom''
      else dispatch_agents {''FormAgent''} agent_ok task ctx)"

definition empty_context :: Context where
  "empty_context = \<lparr>completed_tests = [], failed_tests = []\<rparr>"

section \<open>Properties of the task manager\<close>


lemma fold_preserves:
  assumes "\<And>x s. P s \<Longrightarrow> P (f x s)" and "P s"
  shows "P (fold f xs s)"
  using assms(2) by (induction xs arbitrary: s) (simp_all add: assms(1))

subsection \<open>What each operation leaves alone\<close>

lemma update_task_frame [simp]:
  "coros (update_task tid f w) = coros w" "mgr (update_task tid f w) = mgr w"
  "next_id (update_task tid f w) = next_id w" "clock (update_task tid f w) = clock w"
  "cleanup_log (update_task tid f w) = cleanup_log w"
  "shutdowns (update_task tid f w) = shutdowns w"
  "resources (update_task tid f w) = resources w"
  by (simp_all add: update_task_def split: option.splits)

lemma heap_update_task:
  "heap (update_task tid f w) =
     (case heap w tid of None \<Rightarrow> heap w | Some t \<Rightarrow> (heap w)(tid \<mapsto> f t))"
  by (simp add: update_task_def split: option.splits)

lemma update_resource_frame [simp]:
  "coros (update_resource a f w) = coros w" "mgr (update_resource a f w) = mgr w"
  "next_id (update_resource a f w) = next_id w" "clock (update_resource a f w) = clock w"
  "cleanup_log (update_resource a f w) = cleanup_log w"
  "shutdowns (update_resource a f w) = shutdowns w"
  "heap (update_resource a f w) = heap w"
  by (simp_all add: update_resource_def split: option.splits)

lemma touch_resource_frame [simp]:
  "coros (touch_resource tid w) = coros w" "mgr (touch_resource tid w) = mgr w"
  "next_id (touch_resource tid w) = next_id w" "clock (touch_resource tid w) = clock w"
  "cleanup_log (touch_resource tid w) = cleanup_log w"
  "shutdowns (touch_resource tid w) = shutdowns w"
  "heap (touch_resource tid w) = heap w"
  by (simp_all add: touch_resource_def split: option.splits)

lemma cleanup_task_fst:
  "fst (cleanup_task tid hs es w) =
     w\<lparr>cleanup_log := cleanup_log w @ calls_of tid (fst (run_handlers hs es))\<rparr>"
  by (simp add: cleanup_task_def split: prod.splits)

lemma cleanup_task_snd:
  "snd (cleanup_task tid hs es w) = snd (run_handlers hs es)"
  by (simp add: cleanup_task_def split: prod.splits)

lemma cleanup_task_frame [simp]:
  "heap (fst (cleanup_task tid hs es w)) = heap w"
  "coros (fst (cleanup_task tid hs es w)) = coros w"
  "mgr (fst (cleanup_task tid hs es w)) = mgr w"
  "next_id (fst (cleanup_task tid hs es w)) = next_id w"
  "clock (fst (cleanup_task tid hs es w)) = clock w"
  "shutdowns (fst (cleanup_task tid hs es w)) = shutdowns w"
  "resources (fst (cleanup_task tid hs es w)) = resources w"
  by (simp_all add: cleanup_task_fst)

lemma handlers_of_cleanup_task [simp]:
  "handlers_of (fst (cleanup_task tid hs es w)) x = handlers_of w x"
  by (simp add: handlers_of_def)

lemma cleanup_loop_shape:
  "\<exists>l ts. fst (cleanup_loop xs es w) =
            w\<lparr>cleanup_log := cleanup_log w @ l, mgr := (mgr w)\<lparr>tasks := ts\<rparr>\<rparr>"
proof (induction xs arbitrary: es w)
  case Nil
  have "fst (cleanup_loop [] es w) = w\<lparr>cleanup_log := cleanup_log w @ [], mgr := (mgr w)\<lparr>tasks := []\<rparr>\<rparr>"
    by simp
  then show ?case by blast
next
  case (Cons x xs)
  obtain w1 es1 s where c: "cleanup_task x (handlers_of w x) es w = (w1, es1, s)"
    by (cases "cleanup_task x (handlers_of w x) es w") auto
  have w1: "w1 = w\<lparr>cleanup_log := cleanup_log w @ calls_of x (fst (run_handlers (handlers_of w x) es))\<rparr>"
    using cleanup_task_fst [of x "handlers_of w x" es w] c by simp
  show ?case
  proof (cases s)
    case CleanupDone
    from Cons.IH [of es1 w1] obtain l ts where
      "fst (cleanup_loop xs es1 w1) = w1\<lparr>cleanup_log := cleanup_log w1 @ l, mgr := (mgr w1)\<lparr>tasks := ts\<rparr>\<rparr>"
      by blast
    then have "fst (cleanup_loop (x # xs) es w) =
        w\<lparr>cleanup_log := cleanup_log w @ (calls_of x (fst (run_handlers (handlers_of w x) es)) @ l),
          mgr := (mgr w)\<lparr>tasks := ts\<rparr>\<rparr>"
      using c CleanupDone by (simp add: w1)
    then show ?thesis by blast
  next
    case (CleanupSuspended hs)
    have "fst (cleanup_loop (x # xs) es w) =
        w\<lparr>cleanup_log := cleanup_log w @ calls_of x (fst (run_handlers (handlers_of w x) es)),
          mgr := (mgr w)\<lparr>tasks := tasks (mgr w)\<rparr>\<rparr>"
      using c CleanupSuspended by (simp add: w1)
    then show ?thesis by blast
  next
    case CleanupAborted
    have "fst (cleanup_loop (x # xs) es w) =
        w\<lparr>cleanup_log := cleanup_log w @ calls_of x (fst (run_handlers (handlers_of w x) es)),
          mgr := (mgr w)\<lparr>tasks := tasks (mgr w)\<rparr>\<rparr>"
      using c CleanupAborted by (simp add: w1)
    then show ?thesis by blast
  qed
qed

lemma cleanup_loop_frame [simp]:
  "heap (fst (cleanup_loop xs es w)) = heap w"
  "coros (fst (cleanup_loop xs es w)) = coros w"
  "next_id (fst (cleanup_loop xs es w)) = next_id w"
  "clock (fst (cleanup_loop xs es w)) = clock w"
  "shutdowns (fst (cleanup_loop xs es w)) = shutdowns w"
  "resources (fst (cleanup_loop xs es w)) = resources w"
  "running_tasks (mgr (fst (cleanup_loop xs es w))) = running_tasks (mgr w)"
  "max_concurrent_tasks (mgr (fst (cleanup_loop xs es w))) = max_concurrent_tasks (mgr w)"
  using cleanup_loop_shape [of xs es w] by auto

lemma cancel_task_frame [simp]:
  "coros (fst (cancel_task w tid)) = coros w" "mgr (fst (cancel_task w tid)) = mgr w"
  "next_id (fst (cancel_task w tid)) = next_id w" "clock (fst (cancel_task w tid)) = clock w"
  "cleanup_log (fst (cancel_task w tid)) = cleanup_log w"
  "shutdowns (fst (cancel_task w tid)) = shutdowns w"
  "resources (fst (cancel_task w tid)) = resources w"
  by (simp_all add: cancel_task_def split: option.splits)

lemma cancel_running_frame [simp]:
  "coros (cancel_running tid w) = coros w" "mgr (cancel_running tid w) = mgr w"
  "next_id (cancel_running tid w) = next_id w" "clock (cancel_running tid w) = clock w"
  "cleanup_log (cancel_running tid w) = cleanup_log w"
  "shutdowns (cancel_running tid w) = shutdowns w"
  "resources (cancel_running tid w) = resources w"
  by (simp_all add: cancel_running_def split: option.splits)

lemma fold_cancel_frame [simp]:
  "coros (fold cancel_running xs w) = coros w" "mgr (fold cancel_running xs w) = mgr w"
  "next_id (fold cancel_running xs w) = next_id w"
  "clock (fold cancel_running xs w) = clock w"
  "cleanup_log (fold cancel_running xs w) = cleanup_log w"
  "shutdowns (fold cancel_running xs w) = shutdowns w"
  "resources (fold cancel_running xs w) = resources w"
  by (induction xs arbitrary: w) simp_all

lemma register_frame [simp]:
  "heap (register_browser_context w tid c) = heap w"
  "coros (register_browser_context w tid c) = coros w"
  "mgr (register_browser_context w tid c) = mgr w"
  "next_id (register_browser_context w tid c) = next_id w"
  "cleanup_log (register_browser_context w tid c) = cleanup_log w"
  by (simp_all add: register_browser_context_def split: option.splits)

lemma update_usage_frame [simp]:
  "heap (update_resource_usage w tid smp) = heap w"
  "coros (update_resource_usage w tid smp) = coros w"
  "mgr (update_resource_usage w tid smp) = mgr w"
  "next_id (update_resource_usage w tid smp) = next_id w"
  "cleanup_log (update_resource_usage w tid smp) = cleanup_log w"
  by (simp_all add: update_resource_usage_def split: option.splits sample.splits)

lemma monitor_frame [simp]:
  "heap (start_monitoring w) = heap w" "coros (start_monitoring w) = coros w"
  "next_id (start_monitoring w) = next_id w" "cleanup_log (start_monitoring w) = cleanup_log w"
  "running_tasks (mgr (start_monitoring w)) = running_tasks (mgr w)"
  "max_concurrent_tasks (mgr (start_monitoring w)) = max_concurrent_tasks (mgr w)"
  "heap (monitor_exit w) = heap w" "coros (monitor_exit w) = coros w"
  "next_id (monitor_exit w) = next_id w" "cleanup_log (monitor_exit w) = cleanup_log w"
  "running_tasks (mgr (monitor_exit w)) = running_tasks (mgr w)"
  "max_concurrent_tasks (mgr (monitor_exit w)) = max_concurrent_tasks (mgr w)"
  by (simp_all add: start_monitoring_def monitor_exit_def)

lemma reap_frame [simp]:
  "heap (cleanup_stale_tasks w) = heap w" "coros (cleanup_stale_tasks w) = coros w"
  "next_id (cleanup_stale_tasks w) = next_id w"
  "cleanup_log (cleanup_stale_tasks w) = cleanup_log w"
  "running_tasks (mgr (cleanup_stale_tasks w)) = running_tasks (mgr w)"
  "max_concurrent_tasks (mgr (cleanup_stale_tasks w)) = max_concurrent_tasks (mgr w)"
  by (simp_all add: cleanup_stale_tasks_def)

lemma shutdown_start_frame [simp]:
  "heap (shutdown_start w es) = heap (fold cancel_running (tasks (mgr w)) w)"
  "coros (shutdown_start w es) = coros w"
  "next_id (shutdown_start w es) = next_id w"
  "running_tasks (mgr (shutdown_start w es)) = running_tasks (mgr w)"
  "max_concurrent_tasks (mgr (shutdown_start w es)) = max_concurrent_tasks (mgr w)"
  by (simp_all add: shutdown_start_def Let_def case_prod_beta)

lemma shutdown_resume_frame [simp]:
  "heap (shutdown_resume w i e es) = heap w"
  "coros (shutdown_resume w i e es) = coros w"
  "next_id (shutdown_resume w i e es) = next_id w"
  "running_tasks (mgr (shutdown_resume w i e es)) = running_tasks (mgr w)"
  "max_concurrent_tasks (mgr (shutdown_resume w i e es)) = max_concurrent_tasks (mgr w)"
  by (simp_all add: shutdown_resume_def case_prod_beta
        split: shutdown_pc.splits cleanup_state.splits)

lemma execute_resume_frame [simp]:
  "heap (execute_resume w tid e es) = heap w"
  "mgr (execute_resume w tid e es) = mgr w"
  "next_id (execute_resume w tid e es) = next_id w"
  by (simp_all add: execute_resume_def case_prod_beta split: coro_state.splits)

lemma apply_outcome_fields [simp]:
  "cleanup_handlers (apply_outcome oc t) = cleanup_handlers t"
  "completed_at (apply_outcome oc t) = completed_at t"
  "resource (apply_outcome oc t) = resource t"
  by (cases oc; simp add: apply_outcome_def)+

lemma finish_idle: "coros w tid \<noteq> Awaiting \<Longrightarrow> execute_finish w tid oc es = w"
  by (simp add: execute_finish_def)

lemma finish_fields:
  assumes "coros w tid = Awaiting" "heap w tid = Some t"
  shows "heap (execute_finish w tid oc es) =
           (heap w)(tid \<mapsto> (apply_outcome oc t)\<lparr>completed_at := Some (clock w)\<rparr>)"
    and "mgr (execute_finish w tid oc es) = (mgr w)\<lparr>running_tasks := running_tasks (mgr w) - 1\<rparr>"
    and "coros (execute_finish w tid oc es) =
           (coros w)(tid := coro_after (snd (snd (run_handlers (cleanup_handlers t) es))))"
    and "cleanup_log (execute_finish w tid oc es) =
           cleanup_log w @ calls_of tid (fst (run_handlers (cleanup_handlers t) es))"
    and "next_id (execute_finish w tid oc es) = next_id w"
  using assms
  by (simp_all add: execute_finish_def Let_def case_prod_beta cleanup_task_fst cleanup_task_snd
        handlers_of_def update_task_def)

lemma start_idle: "coros w tid \<noteq> Scheduled \<Longrightarrow> execute_start w tid = w"
  by (simp add: execute_start_def)

lemma start_frame [simp]:
  "next_id (execute_start w tid) = next_id w"
  "cleanup_log (execute_start w tid) = cleanup_log w"
  "max_concurrent_tasks (mgr (execute_start w tid)) = max_concurrent_tasks (mgr w)"
  by (simp_all add: execute_start_def)


lemma create_fields:
  "heap (fst (create_task w nm hs)) =
     (heap w)(next_id w \<mapsto>
        \<lparr>task_id = next_id w, name = nm, status = PENDING, result = None, error = None,
          created_at = clock w, started_at = None, completed_at = None,
          resource = next_id w, cleanup_handlers = hs\<rparr>)"
  "coros (fst (create_task w nm hs)) = (coros w)(next_id w := Scheduled)"
  "next_id (fst (create_task w nm hs)) = Suc (next_id w)"
  "cleanup_log (fst (create_task w nm hs)) = cleanup_log w"
  "running_tasks (mgr (fst (create_task w nm hs))) = running_tasks (mgr w)"
  "max_concurrent_tasks (mgr (fst (create_task w nm hs))) = max_concurrent_tasks (mgr w)"
  by (simp_all add: create_task_def Let_def)

lemma cancel_heap:
  "heap w tid = Some t \<Longrightarrow>
   \<exists>t'. heap (fst (cancel_task w x)) tid = Some t' \<and> cancelled_from t t'"
  by (cases "x = tid")
     (auto simp: cancel_task_def tasks_get_def update_task_def cancelled_from_def
        split: option.splits if_splits)

lemma cancel_heap_None: "heap w tid = None \<Longrightarrow> heap (fst (cancel_task w x)) tid = None"
  by (auto simp: cancel_task_def tasks_get_def update_task_def split: option.splits if_splits)

lemma cancel_running_heap:
  "heap w tid = Some t \<Longrightarrow>
   \<exists>t'. heap (cancel_running x w) tid = Some t' \<and> cancelled_from t t'"
  using cancel_heap [of w tid t x]
  by (auto simp: cancel_running_def cancelled_from_def split: option.splits if_splits)

lemma cancel_running_heap_None:
  "heap w tid = None \<Longrightarrow> heap (cancel_running x w) tid = None"
  by (simp add: cancel_running_def cancel_heap_None split: option.splits)

lemma cancelled_from_trans:
  "cancelled_from t t1 \<Longrightarrow> cancelled_from t1 t' \<Longrightarrow> cancelled_from t t'"
  by (auto simp: cancelled_from_def)

lemma fold_cancel_heap:
  "heap w tid = Some t \<Longrightarrow>
   \<exists>t'. heap (fold cancel_running xs w) tid = Some t' \<and> cancelled_from t t'"
proof (induction xs arbitrary: w t)
  case Nil then show ?case by (simp add: cancelled_from_def)
next
  case (Cons x xs)
  from cancel_running_heap [OF Cons.prems, of x] obtain t1 where
    1: "heap (cancel_running x w) tid = Some t1" and 2: "cancelled_from t t1" by blast
  from Cons.IH [OF 1] obtain t' where
    3: "heap (fold cancel_running xs (cancel_running x w)) tid = Some t'"
    and 4: "cancelled_from t1 t'" by blast
  from 3 cancelled_from_trans [OF 2 4] show ?case by simp
qed

lemma fold_cancel_heap_None:
  "heap w tid = None \<Longrightarrow> heap (fold cancel_running xs w) tid = None"
  by (induction xs arbitrary: w) (simp_all add: cancel_running_heap_None)

subsection \<open>The counter and the ceiling\<close>

lemma step_max [simp]: "max_concurrent_tasks (mgr (step w ev)) = max_concurrent_tasks (mgr w)"
proof (cases ev)
  case (Finish tid oc es)
  then show ?thesis
    by (cases "coros w tid = Awaiting")
       (simp_all add: execute_finish_def Let_def case_prod_beta cleanup_task_fst)
qed (simp_all add: create_fields)


lemma foldl_step_max [simp]:
  "max_concurrent_tasks (mgr (foldl step w evs)) = max_concurrent_tasks (mgr w)"
  by (induction evs arbitrary: w) simp_all


subsection \<open>Invariants of the event loop\<close>

lemma fresh_inv_step: "fresh_inv w \<Longrightarrow> fresh_inv (step w ev)"
proof (cases ev)
  case (Create nm hs)
  assume "fresh_inv w" then show ?thesis using Create
    by (auto simp: fresh_inv_def create_fields)
next
  case (Start tid)
  assume a: "fresh_inv w"
  show ?thesis
  proof (cases "coros w tid = Scheduled")
    case False then show ?thesis using a Start by (simp add: start_idle)
  next
    case True
    then have lt: "tid < next_id w" using a by (force simp: fresh_inv_def not_le[symmetric])
    show ?thesis using a Start True lt
      by (auto simp: fresh_inv_def execute_start_def heap_update_task split: option.splits)
  qed
next
  case (Finish tid oc es)
  assume a: "fresh_inv w"
  show ?thesis
  proof (cases "coros w tid = Awaiting")
    case False then show ?thesis using a Finish by (simp add: finish_idle)
  next
    case True
    then have lt: "tid < next_id w" using a by (force simp: fresh_inv_def not_le[symmetric])
    show ?thesis using a Finish True lt
      by (auto simp: fresh_inv_def execute_finish_def Let_def case_prod_beta heap_update_task
            split: option.splits)
  qed
next
  case (Resume tid e es)
  assume a: "fresh_inv w"
  show ?thesis
  proof (cases "coros w tid")
    case (Cleaning hs)
    then have lt: "tid < next_id w" using a by (force simp: fresh_inv_def not_le[symmetric])
    show ?thesis using a Resume Cleaning lt
      by (auto simp: fresh_inv_def execute_resume_def case_prod_beta)
  qed (use a Resume in \<open>simp_all add: execute_resume_def\<close>)
next
  case (Cancel tid)
  assume "fresh_inv w" then show ?thesis using Cancel
    by (simp add: fresh_inv_def cancel_heap_None)
next
  case (Shutdown es)
  assume "fresh_inv w" then show ?thesis using Shutdown
    by (simp add: fresh_inv_def fold_cancel_heap_None)
qed (simp_all add: fresh_inv_def)

lemma coro_ok_cong:
  "heap w' tid = heap w tid \<Longrightarrow> coros w' tid = coros w tid \<Longrightarrow> coro_ok w tid \<Longrightarrow> coro_ok w' tid"
  by (simp add: coro_ok_def)

lemma coro_ok_cancelled:
  assumes "coro_ok w tid" "coros w' tid = coros w tid"
    and "heap w tid = None \<Longrightarrow> heap w' tid = None"
    and "\<And>t. heap w tid = Some t \<Longrightarrow> \<exists>t'. heap w' tid = Some t' \<and> cancelled_from t t'"
  shows "coro_ok w' tid"
proof (cases "heap w tid")
  case None
  then show ?thesis using assms(1,2) assms(3) by (simp add: coro_ok_def)
next
  case (Some t)
  from assms(4) [OF Some] obtain t' where h: "heap w' tid = Some t'" and c: "cancelled_from t t'"
    by blast
  show ?thesis using assms(1,2) Some h c
    by (auto simp: coro_ok_def cancelled_from_def settled_def)
qed

lemma coro_ok_create:
  "fresh_inv w \<Longrightarrow> coro_ok w t' \<Longrightarrow> coro_ok (fst (create_task w nm hs)) t'"
  by (auto simp: coro_ok_def fresh_inv_def create_fields settled_def before_finally_def)

lemma coro_ok_start: "coro_ok w t' \<Longrightarrow> coro_ok (execute_start w tid) t'"
  by (cases "t' = tid")
     (auto simp: coro_ok_def execute_start_def heap_update_task settled_def before_finally_def
        split: option.splits)

lemma awaiting_heap:
  assumes "coro_inv w" "coros w x = Awaiting"
  shows "\<exists>t. heap w x = Some t \<and> completed_at t = None \<and> \<not> settled (status t)"
proof -
  from assms(1) have "coro_ok w x" by (simp add: coro_inv_def)
  then show ?thesis using assms(2)
    by (cases "heap w x") (auto simp: coro_ok_def before_finally_def)
qed

lemma coro_ok_finish: "coro_inv w \<Longrightarrow> coro_ok (execute_finish w tid oc es) t'"
proof (cases "coros w tid = Awaiting")
  case False
  assume "coro_inv w" then show ?thesis using False by (simp add: finish_idle coro_inv_def)
next
  case True
  assume a: "coro_inv w"
  then have a': "coro_ok w t'" by (simp add: coro_inv_def)
  from awaiting_heap [OF a True] obtain t where h: "heap w tid = Some t" by blast
  have b: "\<not> before_finally (coro_after s)" "coro_after s \<noteq> NotCreated" for s
    by (cases s; simp add: coro_after_def before_finally_def)+
  show ?thesis using a' b
    by (cases "t' = tid") (auto simp: coro_ok_def finish_fields [OF True h])
qed

lemma coro_ok_resume: "coro_ok w t' \<Longrightarrow> coro_ok (execute_resume w tid e es) t'"
proof (cases "coros w tid")
  case (Cleaning hs)
  assume a: "coro_ok w t'"
  have b: "\<not> before_finally (coro_after s)" for s
    by (cases s) (simp_all add: coro_after_def before_finally_def)
  have c: "coros (execute_resume w tid e es) tid \<noteq> NotCreated"
    "\<not> before_finally (coros (execute_resume w tid e es) tid)"
    "x \<noteq> tid \<Longrightarrow> coros (execute_resume w tid e es) x = coros w x" for x
    using Cleaning b [of "snd (snd (cleanup_task tid hs es w))"]
    by (auto simp: execute_resume_def case_prod_beta before_finally_def coro_after_def
          split: cleanup_state.splits)
  show ?thesis
  proof (cases "t' = tid")
    case True
    then show ?thesis using a c(1,2) Cleaning by (auto simp: coro_ok_def)
  next
    case False
    then show ?thesis using a c(3) by (simp add: coro_ok_def)
  qed
qed (simp_all add: execute_resume_def)

lemma coro_inv_step: "fresh_inv w \<Longrightarrow> coro_inv w \<Longrightarrow> coro_inv (step w ev)"
proof (cases ev)
  case (Create nm hs)
  assume "fresh_inv w" "coro_inv w" then show ?thesis using Create
    by (simp add: coro_inv_def coro_ok_create)
next
  case (Start tid)
  assume "fresh_inv w" "coro_inv w" then show ?thesis using Start
    by (simp add: coro_inv_def coro_ok_start)
next
  case (Finish tid oc es)
  assume "fresh_inv w" "coro_inv w" then show ?thesis using Finish
    by (simp add: coro_inv_def [of "execute_finish w tid oc es"] coro_ok_finish)
next
  case (Resume tid e es)
  assume "fresh_inv w" "coro_inv w" then show ?thesis using Resume
    by (simp add: coro_inv_def coro_ok_resume)
next
  case (Cancel x)
  assume a: "coro_inv w"
  have "coro_ok (fst (cancel_task w x)) tid" for tid
    by (rule coro_ok_cancelled [of w]) (use a in \<open>simp_all add: coro_inv_def cancel_heap_None cancel_heap\<close>)
  then show ?thesis using Cancel by (simp add: coro_inv_def)
next
  case (Shutdown es)
  assume a: "coro_inv w"
  have "coro_ok (shutdown_start w es) tid" for tid
    by (rule coro_ok_cancelled [of w])
       (use a in \<open>simp_all add: coro_inv_def fold_cancel_heap_None fold_cancel_heap\<close>)
  then show ?thesis using Shutdown by (simp add: coro_inv_def)
qed (simp_all add: coro_inv_def coro_ok_def)

lemma finite_awaiting: "fresh_inv w \<Longrightarrow> finite {tid. coros w tid = Awaiting}"
proof -
  assume a: "fresh_inv w"
  have "{tid. coros w tid = Awaiting} \<subseteq> {..<next_id w}"
    using a by (force simp: fresh_inv_def not_le[symmetric])
  then show ?thesis by (rule finite_subset) simp
qed

lemma count_inv_cong:
  "coros w' = coros w \<Longrightarrow> running_tasks (mgr w') = running_tasks (mgr w) \<Longrightarrow>
   count_inv w \<Longrightarrow> count_inv w'"
  by (simp add: count_inv_def)

lemma count_inv_step: "fresh_inv w \<Longrightarrow> coro_inv w \<Longrightarrow> count_inv w \<Longrightarrow> count_inv (step w ev)"
proof (cases ev)
  case (Create nm hs)
  assume a: "fresh_inv w" "count_inv w"
  have "{tid. ((coros w)(next_id w := Scheduled)) tid = Awaiting} = {tid. coros w tid = Awaiting}"
    using a(1) by (auto simp: fresh_inv_def)
  then show ?thesis using Create a(2)
    by (simp add: count_inv_def create_fields del: fun_upd_apply)
next
  case (Start tid)
  assume a: "fresh_inv w" "count_inv w"
  show ?thesis
  proof (cases "coros w tid = Scheduled")
    case False then show ?thesis using a Start by (simp add: start_idle)
  next
    case True
    have 1: "{t. ((coros w)(tid := Finished)) t = Awaiting} = {t. coros w t = Awaiting}"
      using True by auto
    have 2: "{t. ((coros w)(tid := Awaiting)) t = Awaiting} = insert tid {t. coros w t = Awaiting}"
      by auto
    have 3: "tid \<notin> {t. coros w t = Awaiting}" using True by simp
    show ?thesis using Start True a(2) finite_awaiting [OF a(1)] 3
      by (simp add: count_inv_def execute_start_def 1 2 del: fun_upd_apply)
  qed
next
  case (Finish tid oc es)
  assume a: "fresh_inv w" "count_inv w" and ci: "coro_inv w"
  show ?thesis
  proof (cases "coros w tid = Awaiting")
    case False then show ?thesis using a Finish by (simp add: finish_idle)
  next
    case True
    from awaiting_heap [OF ci True] obtain t where h: "heap w tid = Some t" by blast
    have na: "coro_after s \<noteq> Awaiting" for s by (cases s) (simp_all add: coro_after_def)
    have 1: "{t. ((coros w)(tid := coro_after s)) t = Awaiting} = {t. coros w t = Awaiting} - {tid}"
      for s using na [of s] by auto
    have 2: "tid \<in> {t. coros w t = Awaiting}" using True by simp
    have 3: "card {t. coros w t = Awaiting} > 0"
      using 2 finite_awaiting [OF a(1)] by (metis card_gt_0_iff empty_iff)
    show ?thesis using Finish a(2) finite_awaiting [OF a(1)] 2 3
      by (simp add: count_inv_def finish_fields [OF True h] 1 of_nat_diff del: fun_upd_apply)
  qed
next
  case (Resume tid e es)
  assume a: "count_inv w"
  show ?thesis
  proof (cases "coros w tid")
    case (Cleaning hs)
    have na: "coro_after s \<noteq> Awaiting" for s by (cases s) (simp_all add: coro_after_def)
    have 1: "{t. ((coros w)(tid := c)) t = Awaiting} = {t. coros w t = Awaiting}"
      if "c \<noteq> Awaiting" for c using Cleaning that by auto
    show ?thesis using Resume a Cleaning na
      by (simp add: count_inv_def execute_resume_def case_prod_beta 1 del: fun_upd_apply)
  qed (use a Resume in \<open>simp_all add: execute_resume_def\<close>)
qed (simp_all add: count_inv_def)

lemma world_inv_init: "world_inv (world_init m)"
  by (simp add: world_inv_def fresh_inv_def coro_inv_def coro_ok_def count_inv_def world_init_def
      TaskManager_init_def)

lemma world_inv_step: "world_inv w \<Longrightarrow> world_inv (step w ev)"
  by (simp add: world_inv_def fresh_inv_step coro_inv_step count_inv_step)

lemma world_inv_foldl: "world_inv w \<Longrightarrow> world_inv (foldl step w evs)"
  by (induction evs arbitrary: w) (simp_all add: world_inv_step)

lemma world_inv_run: "world_inv (run m evs)"
  by (simp add: run_def world_inv_foldl world_inv_init)

lemma run_append: "run m (evs @ evs') = foldl step (run m evs) evs'"
  by (simp add: run_def)

subsection \<open>Running records\<close>











subsection \<open>Settled records\<close>

lemma settled_step:
  assumes "coro_inv w" "heap w tid = Some t" "settled (status t)" "fresh_inv w"
  shows "heap (step w ev) tid = Some t"
proof -
  from assms(1) have "coro_ok w tid" by (simp add: coro_inv_def)
  with assms have nb: "\<not> before_finally (coros w tid)" and nr: "status t \<noteq> RUNNING"
    and lt: "tid \<noteq> next_id w"
    by (auto simp: coro_ok_def settled_def fresh_inv_def)
  have c: "cancelled_from t t' \<Longrightarrow> t' = t" for t'
    using nr by (simp add: cancelled_from_def)
  show ?thesis
  proof (cases ev)
    case (Create nm hs)
    then show ?thesis using assms(2) lt by (simp add: create_fields)
  next
    case (Start x)
    show ?thesis
    proof (cases "x = tid")
      case True
      then show ?thesis using Start nb assms(2) by (simp add: start_idle before_finally_def)
    next
      case False
      then show ?thesis using Start assms(2)
        by (auto simp: execute_start_def heap_update_task split: option.splits)
    qed
  next
    case (Finish x oc es)
    show ?thesis
    proof (cases "coros w x = Awaiting")
      case False then show ?thesis using Finish assms(2) by (simp add: finish_idle)
    next
      case True
      then have ne: "x \<noteq> tid" using nb by (auto simp: before_finally_def)
      from awaiting_heap [OF assms(1) True] obtain tx where h: "heap w x = Some tx" by blast
      show ?thesis using Finish ne assms(2) by (simp add: finish_fields [OF True h])
    qed
  next
    case (Cancel x)
    from cancel_heap [OF assms(2), of x] c show ?thesis using Cancel by auto
  next
    case (Shutdown es)
    from fold_cancel_heap [OF assms(2), of "tasks (mgr w)"] c show ?thesis using Shutdown by auto
  qed (use assms(2) in simp_all)
qed

lemma settled_foldl:
  "world_inv w \<Longrightarrow> heap w tid = Some t \<Longrightarrow> settled (status t) \<Longrightarrow>
   heap (foldl step w evs) tid = Some t"
proof (induction evs arbitrary: w)
  case Nil then show ?case by simp
next
  case (Cons ev evs)
  have "heap (step w ev) tid = Some t"
    using Cons.prems by (intro settled_step) (simp_all add: world_inv_def)
  with Cons.IH [OF world_inv_step [OF Cons.prems(1)]] Cons.prems(3) show ?case by simp
qed

subsection \<open>Calls of cleanup handlers\<close>













subsection \<open>The cleanup loop of shutdown\<close>



lemma handlers_of_fold_cancel [simp]:
  "handlers_of (fold cancel_running xs w) tid = handlers_of w tid"
proof (cases "heap w tid")
  case None
  then show ?thesis by (simp add: handlers_of_def fold_cancel_heap_None)
next
  case (Some t)
  from fold_cancel_heap [OF Some, of xs] obtain t' where
    "heap (fold cancel_running xs w) tid = Some t'" "cancelled_from t t'" by blast
  then show ?thesis using Some by (auto simp: handlers_of_def cancelled_from_def)
qed

lemma handlers_of_mgr [simp]: "handlers_of (w\<lparr>mgr := m\<rparr>) tid = handlers_of w tid"
  by (simp add: handlers_of_def)


lemmas eval_defs = run_def world_init_def TaskManager_init_def create_task_def execute_start_def
  execute_finish_def execute_resume_def cancel_task_def tasks_get_def update_task_def
  update_resource_def touch_resource_def cleanup_task_def handlers_of_def calls_of_def
  coro_after_def next_end_def aborts_def apply_outcome_def status_of_def Let_def
  shutdown_start_def shutdown_resume_def cancel_running_def running_count_def in_flight_def
  cleanup_calls_def settled_def

text \<open>
  The resource object of a task is not part of its record: it is still updated after the
  record has settled.
\<close>

lemma resource_updated_after_settled:
  "status_of (run 1 [Create ''a'' [], Start 0, Finish 0 (Returned ''r'') []]) 0 = Some COMPLETED \<and>
   map_option browser_contexts
     (resources (run 1 [Create ''a'' [], Start 0, Finish 0 (Returned ''r'') [],
                        RegisterBrowserContext 0 ''ctx'']) 0) = Some [''ctx'']"
  by (simp add: eval_defs register_browser_context_def)

subsection \<open>Claims about the task manager\<close>


text \<open>
  C6 as stated fails: a record that is still \<open>PENDING\<close> is not cancelled, the call
  returns \<open>False\<close> and changes nothing.
\<close>

theorem cancel_pending_counterexample:
  "status_of (run 1 [Create ''a'' []]) 0 = Some PENDING \<and>
   cancel_task (run 1 [Create ''a'' []]) 0 = (run 1 [Create ''a'' []], False)"
  by (simp add: eval_defs)

text \<open>
  C6, amended.  \<open>cancel_task\<close> returns \<open>True\<close> exactly when the id is registered and the
  record is \<open>RUNNING\<close>; then the record becomes \<open>CANCELLED\<close> with the error set and
  nothing else changes.  In every other case (unknown id, \<open>PENDING\<close>, \<open>COMPLETED\<close>,
  \<open>FAILED\<close>, \<open>CANCELLED\<close>, \<open>TIMEOUT\<close>) it returns \<open>False\<close> and the state is unchanged.
\<close>

theorem cancel_task_running_only:
  "cancel_task w tid = (w', b) \<Longrightarrow>
     (b \<longleftrightarrow> (\<exists>t. tasks_get w tid = Some t \<and> status t = RUNNING)) \<and>
     (\<not> b \<longrightarrow> w' = w) \<and>
     (b \<longrightarrow> (\<exists>t. heap w tid = Some t \<and>
            w' = w\<lparr>heap := (heap w)(tid \<mapsto>
                   t\<lparr>status := CANCELLED, error := Some ''Task cancelled by user''\<rparr>)\<rparr>))"
  by (auto simp: cancel_task_def tasks_get_def update_task_def split: option.splits if_splits)

theorem cancel_task_running_only_witness:
  "cancel_task (run 1 [Create ''a'' [], Start 0]) 0
     = (fst (cancel_task (run 1 [Create ''a'' [], Start 0]) 0), True) \<and>
   (\<exists>t. tasks_get (run 1 [Create ''a'' [], Start 0]) 0 = Some t \<and> status t = RUNNING)"
proof -
  have e: "cancel_task (run 1 [Create ''a'' [], Start 0]) 0
     = (fst (cancel_task (run 1 [Create ''a'' [], Start 0]) 0), True)"
    by (simp add: eval_defs)
  from cancel_task_running_only [OF e] e show ?thesis by blast
qed







text \<open>
  C7 as stated fails: \<open>create_task\<close> accepts a unit submitted while the counter is at the
  ceiling, and if a slot is free by the time its execution starts the unit runs.
\<close>

theorem capacity_rejection_counterexample:
  "max_concurrent_tasks (mgr (run 1 [Create ''a'' [], Start 0]))
     \<le> running_tasks (mgr (run 1 [Create ''a'' [], Start 0])) \<and>
   snd (create_task (run 1 [Create ''a'' [], Start 0]) ''b'' []) = 1 \<and>
   status_of (run 1 [Create ''a'' [], Start 0, Create ''b'' [], Finish 0 (Returned ''r'') [],
                     Start 1]) 1 = Some RUNNING"
  by (simp add: eval_defs)

text \<open>
  C7, amended.  \<open>create_task\<close> never rejects: it registers a \<open>PENDING\<close> record and
  returns its id.  The ceiling is checked when the execution of the task starts: if the
  counter is at or above the ceiling at that moment, the record becomes \<open>FAILED\<close> with the
  error "Max concurrent tasks reached" and stays so in every continuation (it is neither
  queued nor run), the counter is unchanged and no cleanup handler is invoked by that
  step.
\<close>

theorem capacity_checked_when_execution_starts:
  "snd (create_task w nm hs) = next_id w \<and>
   status_of (fst (create_task w nm hs)) (next_id w) = Some PENDING \<and>
   next_id w \<in> set (tasks (mgr (fst (create_task w nm hs)))) \<and>
   (coros (run m evs) tid = Scheduled \<and>
    max_concurrent_tasks (mgr (run m evs)) \<le> running_tasks (mgr (run m evs))
    \<longrightarrow> (\<exists>t. heap (run m evs) tid = Some t \<and>
             heap (run m (evs @ Start tid # evs')) tid =
               Some (t\<lparr>status := FAILED, error := Some ''Max concurrent tasks reached''\<rparr>)) \<and>
        running_tasks (mgr (run m (evs @ [Start tid]))) = running_tasks (mgr (run m evs)) \<and>
        cleanup_log (run m (evs @ [Start tid])) = cleanup_log (run m evs))"
proof (intro conjI impI)
  show "snd (create_task w nm hs) = next_id w"
    by (simp add: create_task_def Let_def)
  show "status_of (fst (create_task w nm hs)) (next_id w) = Some PENDING"
    by (simp add: create_task_def Let_def status_of_def)
  show "next_id w \<in> set (tasks (mgr (fst (create_task w nm hs))))"
    by (simp add: create_task_def Let_def)
next
  assume a: "coros (run m evs) tid = Scheduled \<and>
    max_concurrent_tasks (mgr (run m evs)) \<le> running_tasks (mgr (run m evs))"
  let ?w = "run m evs"
  have inv: "world_inv ?w" by (rule world_inv_run)
  then have "coro_ok ?w tid" by (simp add: world_inv_def coro_inv_def)
  then obtain t where h: "heap ?w tid = Some t"
    using a by (cases "heap ?w tid") (auto simp: coro_ok_def)
  let ?t' = "t\<lparr>status := FAILED, error := Some ''Max concurrent tasks reached''\<rparr>"
  have s: "heap (step ?w (Start tid)) tid = Some ?t'"
    using a h by (simp add: execute_start_def heap_update_task)
  have "heap (foldl step (step ?w (Start tid)) evs') tid = Some ?t'"
    by (rule settled_foldl [OF world_inv_step [OF inv] s]) (simp add: settled_def)
  then show "\<exists>t. heap (run m evs) tid = Some t \<and>
             heap (run m (evs @ Start tid # evs')) tid =
               Some (t\<lparr>status := FAILED, error := Some ''Max concurrent tasks reached''\<rparr>)"
    using h by (simp add: run_append)
  show "running_tasks (mgr (run m (evs @ [Start tid]))) = running_tasks (mgr (run m evs))"
    using a by (simp add: run_append execute_start_def)
  show "cleanup_log (run m (evs @ [Start tid])) = cleanup_log (run m evs)"
    using a by (simp add: run_append execute_start_def)
qed

theorem capacity_checked_when_execution_starts_witness:
  "coros (run 1 [Create ''a'' [], Start 0, Create ''b'' [SyncHandler ''g'']]) 1 = Scheduled \<and>
   max_concurrent_tasks (mgr (run 1 [Create ''a'' [], Start 0, Create ''b'' [SyncHandler ''g'']]))
     \<le> running_tasks (mgr (run 1 [Create ''a'' [], Start 0, Create ''b'' [SyncHandler ''g'']])) \<and>
   (\<exists>t. heap (run 1 [Create ''a'' [], Start 0, Create ''b'' [SyncHandler ''g'']]) 1 = Some t \<and>
        heap (run 1 ([Create ''a'' [], Start 0, Create ''b'' [SyncHandler ''g'']] @
                     Start 1 # [Finish 0 (Returned ''r'') [], Start 1, Cancel 1])) 1 =
          Some (t\<lparr>status := FAILED, error := Some ''Max concurrent tasks reached''\<rparr>))"
proof -
  let ?evs = "[Create ''a'' [], Start 0, Create ''b'' [SyncHandler ''g'']]"
  have c: "coros (run 1 ?evs) 1 = Scheduled" by (simp add: eval_defs)
  have m: "max_concurrent_tasks (mgr (run 1 ?evs)) \<le> running_tasks (mgr (run 1 ?evs))"
    by (simp add: eval_defs)
  note th = capacity_checked_when_execution_starts
              [of _ _ _ 1 ?evs 1 "[Finish 0 (Returned ''r'') [], Start 1, Cancel 1]"]
  from th c m have "\<exists>t. heap (run 1 ?evs) 1 = Some t \<and>
        heap (run 1 (?evs @ Start 1 # [Finish 0 (Returned ''r'') [], Start 1, Cancel 1])) 1 =
          Some (t\<lparr>status := FAILED, error := Some ''Max concurrent tasks reached''\<rparr>)"
    by blast
  with c m show ?thesis by blast
qed

section \<open>Properties of the merging agent\<close>

lemma dict_set_fresh: "k \<notin> fst ` set d \<Longrightarrow> dict_set d k v = d @ [(k, v)]"
  by (induction d) auto

lemma dict_update_append:
  "distinct (map fst other) \<Longrightarrow> fst ` set other \<inter> fst ` set d = {} \<Longrightarrow>
   dict_update d other = d @ other"
proof (induction other arbitrary: d)
  case Nil then show ?case by simp
next
  case (Cons kv other)
  obtain k v where kv: "kv = (k, v)" by (cases kv)
  have f: "k \<notin> fst ` set d" using Cons.prems(2) kv by auto
  have "dict_update (d @ [(k, v)]) other = (d @ [(k, v)]) @ other"
    using Cons.prems kv by (intro Cons.IH) auto
  then show ?case using kv f by (simp add: dict_set_fresh)
qed

lemma dict_update_empty: "distinct (map fst d) \<Longrightarrow> dict_update [] d = d"
  using dict_update_append [of d "[]"] by simp

lemma merge_key_overwrite:
  assumes "\<not> is_list v" "\<not> (is_dict v \<and> (\<exists>c. md k = Some c \<and> is_dict c))" "wf_val v"
  shows "merge_key md k v = Inr (md(k \<mapsto> v))"
proof (cases v)
  case (PList vs) then show ?thesis using assms(1) by (simp add: is_list_def)
next
  case (PDict d)
  then have dd: "distinct (map fst d)" using assms(3) by (simp add: wf_val_def)
  show ?thesis
  proof (cases "md k")
    case None then show ?thesis using PDict dd by (simp add: merge_key_def dict_update_empty)
  next
    case (Some c)
    then have "\<not> is_dict c" using assms(2) PDict by (simp add: is_dict_def)
    then show ?thesis using PDict dd Some
      by (cases c) (simp_all add: merge_key_def dict_update_empty is_dict_def)
  qed
qed (cases "md k"; simp add: merge_key_def)+

lemma merge_results_conflicts:
  assumes "merge_results ag now = Inr (ag', mr)"
  shows "conflicts ag' = conflicts ag \<and> total_conflicts mr = length (conflicts ag) \<and>
         logged_errors ag' = logged_errors ag"
  using assms by (auto simp: merge_results_def Let_def split: sum.splits)

lemma merge_payload_disjoint:
  "distinct (map fst r) \<Longrightarrow> \<forall>k \<in> fst ` set r. md k = None \<Longrightarrow> \<forall>v \<in> snd ` set r. wf_val v \<Longrightarrow>
   merge_payload md r = Inr (md ++ map_of r)"
proof (induction r arbitrary: md)
  case Nil then show ?case by simp
next
  case (Cons kv r)
  obtain k v where kv: "kv = (k, v)" by (cases kv)
  have n: "md k = None" and w: "wf_val v" and kr: "k \<notin> fst ` set r"
    using Cons.prems kv by auto
  have 1: "merge_key md k v = Inr (md(k \<mapsto> v))"
  proof (cases v)
    case (PList vs) then show ?thesis using n by (simp add: merge_key_def)
  next
    case (PDict d) then show ?thesis using n w
      by (simp add: merge_key_def wf_val_def dict_update_empty)
  qed (simp_all add: merge_key_def n)
  have 2: "merge_payload (md(k \<mapsto> v)) r = Inr (md(k \<mapsto> v) ++ map_of r)"
    using Cons.prems kv kr by (intro Cons.IH) auto
  have 3: "md(k \<mapsto> v) ++ map_of r = md ++ (map_of r)(k \<mapsto> v)"
    using kr by (simp add: map_add_upd_left dom_map_of_conv_image_fst)
  have 4: "map_of ((k, v) # r) = (map_of r)(k \<mapsto> v)" by simp
  show ?case unfolding kv 4 by (simp only: merge_payload.simps 1 sum.case 2 3)
qed

lemma merged_value_Inr: "merged_value (Inr (ag, mr)) = merged_data mr"
  by (rule ext) (simp add: merged_value_def)

lemmas merge_eval = merged_value_def recorded_conflicts_def merge_results_def
        collect_agent_results_def MergingAgent_init_def Let_def merge_key_def

subsection \<open>Claims about the merging agent\<close>

text \<open>
  C8.  Two outcomes collected from distinct sources, whose payloads are dicts with
  disjoint key sets, merge into the key-wise union of the payloads; the union is the same
  for both orders of collection, and a new agent has no conflict on record after the
  merge.
\<close>

theorem disjoint_merge_is_union:
  assumes "a1 \<noteq> a2"
    and "distinct (map fst r1)" and "distinct (map fst r2)"
    and "fst ` set r1 \<inter> fst ` set r2 = {}"
    and "\<forall>v \<in> snd ` set r1 \<union> snd ` set r2. wf_val v"
  shows "merged_value (merge_results (collect_agent_results (collect_agent_results
             (MergingAgent_init sid) t1 a1 r1) t2 a2 r2) now) = map_of r1 ++ map_of r2
       \<and> merged_value (merge_results (collect_agent_results (collect_agent_results
             (MergingAgent_init sid) t1 a2 r2) t2 a1 r1) now) = map_of r1 ++ map_of r2
       \<and> recorded_conflicts (merge_results (collect_agent_results (collect_agent_results
             (MergingAgent_init sid) t1 a1 r1) t2 a2 r2) now) = Some ([], 0)
       \<and> recorded_conflicts (merge_results (collect_agent_results (collect_agent_results
             (MergingAgent_init sid) t1 a2 r2) t2 a1 r1) now) = Some ([], 0)"
proof -
  have p1: "merge_payload (\<lambda>_. None) r1 = Inr (map_of r1)"
    using merge_payload_disjoint [of r1 "\<lambda>_. None"] assms by simp
  have p2: "merge_payload (\<lambda>_. None) r2 = Inr (map_of r2)"
    using merge_payload_disjoint [of r2 "\<lambda>_. None"] assms by simp
  have d12: "\<forall>k \<in> fst ` set r2. map_of r1 k = None"
    using assms(4) by (auto simp: map_of_eq_None_iff)
  have d21: "\<forall>k \<in> fst ` set r1. map_of r2 k = None"
    using assms(4) by (auto simp: map_of_eq_None_iff)
  have p12: "merge_payload (map_of r1) r2 = Inr (map_of r1 ++ map_of r2)"
    using merge_payload_disjoint [of r2 "map_of r1"] assms d12 by simp
  have p21: "merge_payload (map_of r2) r1 = Inr (map_of r2 ++ map_of r1)"
    using merge_payload_disjoint [of r1 "map_of r2"] assms d21 by simp
  have comm: "map_of r2 ++ map_of r1 = map_of r1 ++ map_of r2"
    using assms(4) by (intro map_add_comm) (auto simp: dom_map_of_conv_image_fst)
  show ?thesis using assms(1) p1 p2 p12 p21 comm
    by (simp add: merged_value_Inr recorded_conflicts_def merge_results_def
        collect_agent_results_def MergingAgent_init_def Let_def)
qed

theorem disjoint_merge_is_union_witness:
  "''A'' \<noteq> ''B'' \<and>
   merged_value (merge_results (collect_agent_results (collect_agent_results
       (MergingAgent_init ''s'') 0 ''A'' [(''x'', PInt 1)]) 0 ''B'' [(''y'', PInt 2)]) 0)
     = map_of [(''x'', PInt 1)] ++ map_of [(''y'', PInt 2)] \<and>
   merged_value (merge_results (collect_agent_results (collect_agent_results
       (MergingAgent_init ''s'') 0 ''B'' [(''y'', PInt 2)]) 0 ''A'' [(''x'', PInt 1)]) 0)
     = map_of [(''x'', PInt 1)] ++ map_of [(''y'', PInt 2)] \<and>
   recorded_conflicts (merge_results (collect_agent_results (collect_agent_results
       (MergingAgent_init ''s'') 0 ''A'' [(''x'', PInt 1)]) 0 ''B'' [(''y'', PInt 2)]) 0)
     = Some ([], 0)"
  using disjoint_merge_is_union [of "''A''" "''B''" "[(''x'', PInt 1)]" "[(''y'', PInt 2)]"
      "''s''" 0 0 0]
  by (simp add: wf_val_def)

text \<open>
  C3 as stated fails: merging \<open>{A: {x: 1}}\<close> and \<open>{B: {x: 2}}\<close> gives \<open>x: 2\<close> and no
  conflict on record; and a list arriving on a key that holds a scalar raises
  \<open>AttributeError\<close>.
\<close>

theorem merge_conflict_counterexample:
  "merged_value (merge_results (collect_agent_results (collect_agent_results
       (MergingAgent_init ''s'') 0 ''A'' [(''x'', PInt 1)]) 0 ''B'' [(''x'', PInt 2)]) 0) ''x''
     = Some (PInt 2) \<and>
   recorded_conflicts (merge_results (collect_agent_results (collect_agent_results
       (MergingAgent_init ''s'') 0 ''A'' [(''x'', PInt 1)]) 0 ''B'' [(''x'', PInt 2)]) 0)
     = Some ([], 0) \<and>
   merge_results (collect_agent_results (collect_agent_results
       (MergingAgent_init ''s'') 0 ''A'' [(''x'', PInt 1)]) 0 ''B'' [(''x'', PList [PInt 2])]) 0
     = Inl AttributeError"
  by (simp add: merge_eval)

text \<open>
  C3, amended.  When the incoming value is not a list, and the current and the incoming
  value are not both dicts, the incoming value replaces the current one.  A merge that
  returns leaves the recorded conflicts and the error log as they were: conflict records
  come from \<open>resolve_conflicts\<close> only, and \<open>total_conflicts\<close> counts those.
\<close>

theorem merge_overwrites_without_conflict_record:
  "(\<not> is_list v \<and> \<not> (is_dict v \<and> (\<exists>c. md k = Some c \<and> is_dict c)) \<and> wf_val v
      \<longrightarrow> merge_key md k v = Inr (md(k \<mapsto> v))) \<and>
   (merge_results ag now = Inr (ag', mr)
      \<longrightarrow> conflicts ag' = conflicts ag \<and> total_conflicts mr = length (conflicts ag) \<and>
          logged_errors ag' = logged_errors ag)"
proof (rule conjI)
  show "\<not> is_list v \<and> \<not> (is_dict v \<and> (\<exists>c. md k = Some c \<and> is_dict c)) \<and> wf_val v
      \<longrightarrow> merge_key md k v = Inr (md(k \<mapsto> v))"
    by (rule impI, rule merge_key_overwrite) simp_all
  show "merge_results ag now = Inr (ag', mr)
      \<longrightarrow> conflicts ag' = conflicts ag \<and> total_conflicts mr = length (conflicts ag) \<and>
          logged_errors ag' = logged_errors ag"
    by (rule impI, rule merge_results_conflicts)
qed

theorem merge_overwrites_without_conflict_record_witness:
  "\<not> is_list (PInt 2) \<and> wf_val (PInt 2) \<and>
   merge_key [''x'' \<mapsto> PList [PInt 1]] ''x'' (PInt 2) = Inr ([''x'' \<mapsto> PInt 2]) \<and>
   merge_results (resolve_conflicts (collect_agent_results (collect_agent_results
       (MergingAgent_init ''s'') 0 ''A'' [(''x'', PInt 1)]) 0 ''B'' [(''x'', PInt 2)])
       0 ''c1'' ''value'' ''A'' ''B'' ''x'') 0
     = Inr (projr (merge_results (resolve_conflicts (collect_agent_results (collect_agent_results
       (MergingAgent_init ''s'') 0 ''A'' [(''x'', PInt 1)]) 0 ''B'' [(''x'', PInt 2)])
       0 ''c1'' ''value'' ''A'' ''B'' ''x'') 0)) \<and>
   total_conflicts (snd (projr (merge_results (resolve_conflicts (collect_agent_results
       (collect_agent_results (MergingAgent_init ''s'') 0 ''A'' [(''x'', PInt 1)]) 0 ''B''
       [(''x'', PInt 2)]) 0 ''c1'' ''value'' ''A'' ''B'' ''x'') 0))) = 1"
proof -
  let ?ag = "resolve_conflicts (collect_agent_results (collect_agent_results
       (MergingAgent_init ''s'') 0 ''A'' [(''x'', PInt 1)]) 0 ''B'' [(''x'', PInt 2)])
       0 ''c1'' ''value'' ''A'' ''B'' ''x''"
  have a: "\<not> is_list (PInt 2)" by (simp add: is_list_def)
  have b: "\<not> (is_dict (PInt 2) \<and> (\<exists>c. [''x'' \<mapsto> PList [PInt 1]] ''x'' = Some c \<and> is_dict c))"
    by (simp add: is_dict_def)
  have c: "wf_val (PInt 2)" by (simp add: wf_val_def)
  have e: "merge_results ?ag 0 = Inr (projr (merge_results ?ag 0))"
    by (simp add: merge_eval resolve_conflicts_def)
  then have e': "merge_results ?ag 0
      = Inr (fst (projr (merge_results ?ag 0)), snd (projr (merge_results ?ag 0)))" by simp
  have n: "length (conflicts ?ag) = 1"
    by (simp add: resolve_conflicts_def collect_agent_results_def MergingAgent_init_def)
  note th = merge_overwrites_without_conflict_record
         [of "PInt 2" "[''x'' \<mapsto> PList [PInt 1]]" "''x''" ?ag 0
             "fst (projr (merge_results ?ag 0))" "snd (projr (merge_results ?ag 0))"]
  from th a b c
  have k: "merge_key [''x'' \<mapsto> PList [PInt 1]] ''x'' (PInt 2)
          = Inr ([''x'' \<mapsto> PList [PInt 1], ''x'' \<mapsto> PInt 2])" by blast
  from th e' have "total_conflicts (snd (projr (merge_results ?ag 0))) = length (conflicts ?ag)"
    by blast
  then have t: "total_conflicts (snd (projr (merge_results ?ag 0))) = 1" using n by simp
  from a c k e t show ?thesis by simp
qed

section \<open>Properties of the scheduler\<close>







lemma new_failed_ids: "fst ` set (new_failed zs) \<subseteq> fst ` set zs"
  by (induction zs rule: new_failed.induct) auto






lemma select_batch_length: "0 \<le> mp \<Longrightarrow> int (length (select_batch mp ready)) \<le> mp"
  by (auto simp: select_batch_def py_take_def Let_def min_def)

lemma new_failed_append [simp]: "new_failed (xs @ ys) = new_failed xs @ new_failed ys"
  by (induction xs rule: new_failed.induct) simp_all

lemma new_completed_append [simp]:
  "new_completed (xs @ ys) = new_completed xs @ new_completed ys"
  by (induction xs rule: new_completed.induct) simp_all

lemma new_log_append [simp]: "new_log (xs @ ys) = new_log xs @ new_log ys"
  by (induction xs rule: new_log.induct) simp_all

















lemmas sched_eval = execute_tasks_with_parallel_def build_task_map_def build_dependencies_def
  sched_loop.simps select_batch_def py_take_def Let_def mk_task_def raising_dispatch_def
  dispatch_agents_def run_agent_task_async_def agent_ok_def agent_fails_on_def
  empty_context_def final_state_def
  execute_tasks_order_def task_key_def

text \<open>A round that stalls repeats forever: the function does not return.\<close>

lemma sched_loop_stall_aux:
  assumes "sched_loop mp tm deps dispatch st = Some y"
  shows "\<not> stalls mp deps st"
proof (rule sched_loop.raw_induct
         [where P = "\<lambda>mp tm deps dispatch st y. \<not> stalls mp deps st", OF _ assms], goal_cases)
  case (1 f mp tm deps dispatch st y)
  show ?case
  proof
    assume s: "stalls mp deps st"
    then obtain ready where ne: "pending st \<noteq> []"
      and r: "ready_tasks deps (executed st) (pending st) = Inr ready"
      and rne: "ready \<noteq> []" and b: "select_batch mp ready = []"
      by (auto simp: stalls_def split: sum.splits)
    let ?st1 = "st\<lparr>dispatched := dispatched st @ [[]]\<rparr>"
    from 1(2) ne r rne b have "f mp tm deps dispatch ?st1 = Some y"
      by (simp add: Let_def)
    then have "\<not> stalls mp deps ?st1" by (rule 1(1))
    moreover have "stalls mp deps ?st1" using s by (simp add: stalls_def)
    ultimately show False by blast
  qed
qed

lemma sched_loop_stalls: "stalls mp deps st \<Longrightarrow> sched_loop mp tm deps dispatch st = None"
  using sched_loop_stall_aux [of mp tm deps dispatch st] by (cases "sched_loop mp tm deps dispatch st") auto

lemma zero_ceiling_never_returns:
  "execute_tasks_with_parallel id 0 (dispatch_agents {''FormAgent''} agent_ok)
     [mk_task ''A'' 1 []] empty_context = None"
  unfolding execute_tasks_with_parallel_def Let_def
  by (rule sched_loop_stalls)
     (simp add: stalls_def build_task_map_def build_dependencies_def mk_task_def task_key_def
        select_batch_def py_take_def)

subsection \<open>Claims about the scheduler\<close>







text \<open>
  C9.  The batch is a prefix of the ready list, which follows the iteration order of the
  \<open>pending\<close> set; the priority is not read.  With insertion order as iteration order and
  ceiling 1, \<open>A\<close> (priority 2) is dispatched before \<open>B\<close> (priority 1); with the reverse
  iteration order, \<open>B\<close> (priority 2) before \<open>A\<close> (priority 1).  The sequential
  orchestrator visits the same tasks in ascending priority.
\<close>

theorem batch_order_ignores_priority:
  "map_option dispatched (final_state (execute_tasks_with_parallel id 1
       (dispatch_agents {''FormAgent''} agent_ok)
       [mk_task ''A'' 2 [], mk_task ''B'' 1 []] empty_context))
     = Some [[''A''], [''B'']] \<and>
   map_option dispatched (final_state (execute_tasks_with_parallel rev 1
       (dispatch_agents {''FormAgent''} agent_ok)
       [mk_task ''A'' 1 [], mk_task ''B'' 2 []] empty_context))
     = Some [[''B''], [''A'']] \<and>
   map task_key (execute_tasks_order [mk_task ''A'' 2 [], mk_task ''B'' 1 []]) = [''B'', ''A'']"
  by (simp add: sched_eval)

end
